theory Spec2Isabelle
  imports Complex_Main "HOL-Library.Sublist"
begin

section \<open>Values read from the fetched JSON document\<close>

text \<open>
  \<^verbatim>\<open>script.js\<close> works on whatever \<^verbatim>\<open>response.json()\<close> returns, so the model keeps the
  dynamic types of JavaScript: a value is undefined (a property that is absent), null, a
  boolean, a number, a string, an array or an object.  Of a number only its value
  matters here; JSON has no NaN, and a literal beyond the range of a double is not
  represented.  An object is the list of its own properties, read
  with \<^const>\<open>map_of\<close>.  Text is an Isabelle \<^typ>\<open>string\<close>; a \<^typ>\<open>char\<close> stands for the
  code unit of the same number (the Latin-1 range).
\<close>

datatype jsval =
    JUndefined
  | JNull
  | JBool bool
  | JNum real
  | JStr string
  | JArr "jsval list"
  | JObj "(string \<times> jsval) list"

text \<open>What can be thrown inside \<^verbatim>\<open>loadProjects\<close>; every one of them ends in its
  \<^verbatim>\<open>catch\<close> block.\<close>

datatype error =
    TypeError
  | FetchFailed
  | SyntaxError
  | FailedToLoad nat
  | InvalidJSONStructure

text \<open>The truth value JavaScript gives a value in \<^verbatim>\<open>!v\<close>, \<^verbatim>\<open>a || b\<close> and \<^verbatim>\<open>if (v)\<close>.\<close>

fun truthy :: "jsval \<Rightarrow> bool" where
  "truthy JUndefined = False"
| "truthy JNull = False"
| "truthy (JBool b) = b"
| "truthy (JNum r) = (r \<noteq> 0)"
| "truthy (JStr s) = (s \<noteq> [])"
| "truthy (JArr xs) = True"
| "truthy (JObj kvs) = True"

text \<open>\<^verbatim>\<open>a || b\<close>\<close>

definition js_or :: "jsval \<Rightarrow> jsval \<Rightarrow> jsval" where
  "js_or a b = (if truthy a then a else b)"

text \<open>
  \<^verbatim>\<open>v.name\<close> for the property names the script reads (\<^verbatim>\<open>projects\<close>, \<^verbatim>\<open>id\<close>,
  \<^verbatim>\<open>title\<close>, ...).  Reading a property of null or undefined throws a TypeError; the
  functions below test \<open>nullish\<close> before the first read.  An object gives its own
  property or undefined, and a boolean, number, string or array has none of these names.
\<close>

fun nullish :: "jsval \<Rightarrow> bool" where
  "nullish JUndefined = True"
| "nullish JNull = True"
| "nullish v = False"

fun get_prop :: "jsval \<Rightarrow> string \<Rightarrow> jsval" where
  "get_prop (JObj kvs) k = (case map_of kvs k of Some v \<Rightarrow> v | None \<Rightarrow> JUndefined)"
| "get_prop v k = JUndefined"

section \<open>Characters and the three regular expressions of the date parser\<close>

text \<open>\<^verbatim>\<open>String.prototype.toLowerCase\<close> on code units below 256: A-Z and the accented
  capitals 192-222 (without the multiplication sign 215) move up by 32.\<close>

definition toLowerCase_char :: "char \<Rightarrow> char" where
  "toLowerCase_char c =
     (let n = (of_char c :: nat)
      in if (65 \<le> n \<and> n \<le> 90) \<or> (192 \<le> n \<and> n \<le> 222 \<and> n \<noteq> 215)
         then char_of (n + 32) else c)"

definition toLowerCase :: "string \<Rightarrow> string" where
  "toLowerCase s = map toLowerCase_char s"

text \<open>\<^verbatim>\<open>\d\<close>: the ten ASCII digits.\<close>

definition is_digit :: "char \<Rightarrow> bool" where
  "is_digit c = (48 \<le> (of_char c :: nat) \<and> (of_char c :: nat) \<le> 57)"

text \<open>\<^verbatim>\<open>\s\<close> below 256: tab, line feed, vertical tab, form feed, carriage return, space
  and the no-break space.\<close>

definition is_space :: "char \<Rightarrow> bool" where
  "is_space c = ((of_char c :: nat) \<in> {9, 10, 11, 12, 13, 32, 160})"

text \<open>A letter of a pattern under the \<^verbatim>\<open>i\<close> flag: the pattern's letters are a-z, and such
  a letter matches itself and its ASCII capital, nothing else.\<close>

definition ci_eq :: "char \<Rightarrow> char \<Rightarrow> bool" where
  "ci_eq p c = (c = p \<or> (of_char c :: nat) + 32 = of_char p)"

fun ci_prefix :: "string \<Rightarrow> string \<Rightarrow> bool" where
  "ci_prefix [] t = True"
| "ci_prefix (p # ps) [] = False"
| "ci_prefix (p # ps) (c # cs) = (ci_eq p c \<and> ci_prefix ps cs)"

text \<open>\<^verbatim>\<open>parseInt(ds, 10)\<close> on a capture of \<^verbatim>\<open>\d\<close>s, the only way the script calls it.\<close>

definition digit_val :: "char \<Rightarrow> int" where
  "digit_val c = int (of_char c) - 48"

definition parseInt10 :: "string \<Rightarrow> int" where
  "parseInt10 ds = foldl (\<lambda>acc c. acc * 10 + digit_val c) 0 ds"

text \<open>\<^verbatim>\<open>(\d{4})\<close> at the head of the text: the capture, if the next four characters are
  digits.\<close>

definition four_digits :: "string \<Rightarrow> string option" where
  "four_digits t =
     (if 4 \<le> length t \<and> list_all is_digit (take 4 t) then Some (take 4 t) else None)"

text \<open>\<^verbatim>\<open>\s+(\d{4})\<close> at the head of the text.  \<^verbatim>\<open>\s+\<close> is greedy; giving a space back
  cannot help, since the next thing to match is a digit.\<close>

definition spaces_year :: "string \<Rightarrow> string option" where
  "spaces_year t =
     (case t of
        [] \<Rightarrow> None
      | c # cs \<Rightarrow> if is_space c then four_digits (dropWhile is_space cs) else None)"

text \<open>The alternatives of the first group, in the order of the pattern.\<close>

definition month_alternatives :: "string list" where
  "month_alternatives =
     [''january'', ''february'', ''march'', ''april'', ''may'', ''june'', ''july'',
      ''august'', ''september'', ''october'', ''november'', ''december'',
      ''jan'', ''feb'', ''mar'', ''apr'', ''may'', ''jun'', ''jul'', ''aug'', ''sep'',
      ''oct'', ''nov'', ''dec'']"

text \<open>
  \<^verbatim>\<open>text.match(pattern)\<close> for a pattern without the \<^verbatim>\<open>g\<close> flag: the pattern is tried at
  every start position from the left, and the first position where it matches gives the
  captures; \<^verbatim>\<open>null\<close> (here \<^const>\<open>None\<close>) when no position does.  Each of the three
  patterns consumes at least one character, so the position behind the last character
  never matches.
\<close>

fun leftmost :: "(string \<Rightarrow> 'a option) \<Rightarrow> string \<Rightarrow> 'a option" where
  "leftmost pat [] = None"
| "leftmost pat (c # cs) =
     (case pat (c # cs) of Some r \<Rightarrow> Some r | None \<Rightarrow> leftmost pat cs)"

text \<open>The whole first pattern at one start position: the first alternative after which
  the rest of the pattern matches wins; the result is the two captures.\<close>

fun month_year_at :: "string list \<Rightarrow> string \<Rightarrow> (string \<times> string) option" where
  "month_year_at [] t = None"
| "month_year_at (n # ns) t =
     (if ci_prefix n t
      then (case spaces_year (drop (length n) t) of
              Some y \<Rightarrow> Some (take (length n) t, y)
            | None \<Rightarrow> month_year_at ns t)
      else month_year_at ns t)"

text \<open>\<^verbatim>\<open>dateStr.match(/(january|...|dec)\s+(\d{4})/i)\<close>\<close>

definition monthYearMatch :: "string \<Rightarrow> (string \<times> string) option" where
  "monthYearMatch t = leftmost (month_year_at month_alternatives) t"

text \<open>\<^verbatim>\<open>(\d{4})[-/](\d{1,2})\<close> at one start position; \<^verbatim>\<open>\d{1,2}\<close> takes a second digit
  when there is one.\<close>

definition dash_at :: "string \<Rightarrow> (string \<times> string) option" where
  "dash_at t =
     (case four_digits t of
        None \<Rightarrow> None
      | Some y \<Rightarrow>
          (case drop 4 t of
             s # m # rest \<Rightarrow>
               if (s = CHR ''-'' \<or> s = CHR ''/'') \<and> is_digit m
               then Some (y, m # (case rest of
                                    [] \<Rightarrow> []
                                  | m2 # rest2 \<Rightarrow> if is_digit m2 then [m2] else []))
               else None
           | _ \<Rightarrow> None))"

text \<open>\<^verbatim>\<open>dateStr.match(/(\d{4})[-/](\d{1,2})/)\<close>\<close>

definition dashMatch :: "string \<Rightarrow> (string \<times> string) option" where
  "dashMatch t = leftmost dash_at t"

text \<open>\<^verbatim>\<open>dateStr.match(/(\d{4})/)\<close>\<close>

definition yearMatch :: "string \<Rightarrow> string option" where
  "yearMatch t = leftmost four_digits t"

section \<open>The date parser\<close>

record sort_date =
  year :: int
  month :: int
  sortKey :: int

text \<open>The object literal \<^verbatim>\<open>monthNames\<close>.\<close>

definition monthNames :: "(string \<times> int) list" where
  "monthNames =
     [(''january'', 1), (''jan'', 1), (''february'', 2), (''feb'', 2),
      (''march'', 3), (''mar'', 3), (''april'', 4), (''apr'', 4), (''may'', 5),
      (''june'', 6), (''jun'', 6), (''july'', 7), (''jul'', 7),
      (''august'', 8), (''aug'', 8), (''september'', 9), (''sep'', 9),
      (''october'', 10), (''oct'', 10), (''november'', 11), (''nov'', 11),
      (''december'', 12), (''dec'', 12)]"

text \<open>\<^verbatim>\<open>monthNames[name.toLowerCase()] || 1\<close>\<close>

definition month_of_name :: "string \<Rightarrow> int" where
  "month_of_name name =
     (case map_of monthNames (toLowerCase name) of
        Some m \<Rightarrow> if m = 0 then 1 else m
      | None \<Rightarrow> 1)"

text \<open>The body of \<^verbatim>\<open>parseYearMonth\<close> after its guard, on a string.\<close>

definition parse_date_string :: "string \<Rightarrow> sort_date" where
  "parse_date_string dateString =
     (let dateStr = toLowerCase dateString
      in case monthYearMatch dateStr of
           Some (g1, g2) \<Rightarrow>
             (let m = month_of_name g1; y = parseInt10 g2
              in \<lparr>year = y, month = m, sortKey = y * 100 + m\<rparr>)
         | None \<Rightarrow>
             (case dashMatch dateStr of
                Some (g1, g2) \<Rightarrow>
                  (let y = parseInt10 g1; m = parseInt10 g2
                   in \<lparr>year = y, month = m, sortKey = y * 100 + m\<rparr>)
              | None \<Rightarrow>
                  (case yearMatch dateStr of
                     Some g1 \<Rightarrow>
                       (let y = parseInt10 g1
                        in \<lparr>year = y, month = 1, sortKey = y * 100\<rparr>)
                   | None \<Rightarrow> \<lparr>year = 2000, month = 1, sortKey = 0\<rparr>)))"

text \<open>
  \<^verbatim>\<open>parseYearMonth(dateString)\<close>.  The guard returns the default for a falsy argument
  and for the text \<^verbatim>\<open>Unknown Date\<close>; any other argument has \<^verbatim>\<open>toLowerCase\<close> called on
  it, which only a string has: on a number, \<^verbatim>\<open>true\<close>, an array or an object the call
  throws a TypeError.
\<close>

definition parseYearMonth :: "jsval \<Rightarrow> error + sort_date" where
  "parseYearMonth dateString =
     (if \<not> truthy dateString \<or> dateString = JStr ''Unknown Date''
      then Inr \<lparr>year = 2000, month = 1, sortKey = 0\<rparr>
      else (case dateString of
              JStr s \<Rightarrow> Inr (parse_date_string s)
            | _ \<Rightarrow> Inl TypeError))"

text \<open>
  What the three patterns look for, said without the matcher: a month name (in either
  case), white space and four digits somewhere in the text; four digits, a dash or slash
  and a digit somewhere in the text; four digits somewhere in the text.
\<close>

definition occurs_month_year :: "string \<Rightarrow> bool" where
  "occurs_month_year t =
     (\<exists>pre name ws ds post.
        t = pre @ name @ ws @ ds @ post \<and>
        (\<exists>n \<in> set month_alternatives. list_all2 ci_eq n name) \<and>
        ws \<noteq> [] \<and> list_all is_space ws \<and> length ds = 4 \<and> list_all is_digit ds)"

definition occurs_year_month :: "string \<Rightarrow> bool" where
  "occurs_year_month t =
     (\<exists>pre ds sep m post.
        t = pre @ ds @ sep # m # post \<and> length ds = 4 \<and> list_all is_digit ds \<and>
        (sep = CHR ''-'' \<or> sep = CHR ''/'') \<and> is_digit m)"

definition occurs_year :: "string \<Rightarrow> bool" where
  "occurs_year t =
     (\<exists>pre ds post. t = pre @ ds @ post \<and> length ds = 4 \<and> list_all is_digit ds)"

section \<open>Loading: defaults, then the sort\<close>

text \<open>A project after \<^verbatim>\<open>loadProjects\<close> has filled in the defaults.  \<^verbatim>\<open>a || b\<close> keeps
  whatever truthy value the document holds, so the fields stay dynamically typed.  The
  fields \<^verbatim>\<open>id\<close> and \<^verbatim>\<open>type\<close> are \<open>id_field\<close> and \<open>type_field\<close> here.\<close>

record project =
  id_field :: jsval
  title :: jsval
  category :: jsval
  type_field :: jsval
  date :: jsval
  sortDate :: sort_date
  tools :: jsval
  skills :: jsval
  description :: jsval
  links :: jsval
  media :: jsval

text \<open>
  The callback of \<^verbatim>\<open>data.projects.map((project, index) => ({...}))\<close>.  The first
  property read throws when the array element is null; \<^verbatim>\<open>parseYearMonth\<close> is called on
  \<^verbatim>\<open>project.date\<close> itself, not on the defaulted date.
\<close>

definition normalize_project :: "jsval \<Rightarrow> nat \<Rightarrow> error + project" where
  "normalize_project raw index =
     (if nullish raw then Inl TypeError
      else (case parseYearMonth (get_prop raw ''date'') of
              Inl e \<Rightarrow> Inl e
            | Inr sd \<Rightarrow>
                Inr \<lparr>id_field = js_or (get_prop raw ''id'') (JNum (real (index + 1))),
                     title = js_or (get_prop raw ''title'') (JStr ''Untitled Project''),
                     category = js_or (get_prop raw ''category'') (JStr ''uncategorized''),
                     type_field = js_or (get_prop raw ''type'') (JStr ''Other''),
                     date = js_or (get_prop raw ''date'') (JStr ''Unknown Date''),
                     sortDate = sd,
                     tools = js_or (get_prop raw ''tools'') (JArr []),
                     skills = js_or (get_prop raw ''skills'') (JArr []),
                     description =
                       js_or (get_prop raw ''description'') (JStr ''No description available.''),
                     links = js_or (get_prop raw ''links'') (JArr []),
                     media = js_or (get_prop raw ''media'') (JArr [])\<rparr>))"

text \<open>\<^verbatim>\<open>Array.prototype.map\<close> with the index, from index \<open>i\<close> on; an exception in the
  callback ends the whole map.\<close>

fun normalize_from :: "nat \<Rightarrow> jsval list \<Rightarrow> error + project list" where
  "normalize_from i [] = Inr []"
| "normalize_from i (raw # raws) =
     (case normalize_project raw i of
        Inl e \<Rightarrow> Inl e
      | Inr p \<Rightarrow>
          (case normalize_from (Suc i) raws of
             Inl e \<Rightarrow> Inl e
           | Inr ps \<Rightarrow> Inr (p # ps)))"

text \<open>The comparator handed to \<^verbatim>\<open>projects.sort\<close>: it reads \<^verbatim>\<open>sortDate.year\<close> and
  \<^verbatim>\<open>sortDate.month\<close>.\<close>

definition compare_dates :: "project \<Rightarrow> project \<Rightarrow> int" where
  "compare_dates a b =
     (if year (sortDate b) \<noteq> year (sortDate a)
      then year (sortDate b) - year (sortDate a)
      else month (sortDate b) - month (sortDate a))"

text \<open>
  \<^verbatim>\<open>Array.prototype.sort(cmp)\<close> belongs to the language, not to the script: it orders the
  elements by the comparator and keeps the order of elements that compare equal.  It is
  modelled by an insertion sort that puts an element in front of the first one it does
  not compare greater than.
\<close>

fun insert_sorted :: "('a \<Rightarrow> 'a \<Rightarrow> int) \<Rightarrow> 'a \<Rightarrow> 'a list \<Rightarrow> 'a list" where
  "insert_sorted cmp x [] = [x]"
| "insert_sorted cmp x (y # ys) =
     (if cmp x y \<le> 0 then x # y # ys else y # insert_sorted cmp x ys)"

definition js_sort :: "('a \<Rightarrow> 'a \<Rightarrow> int) \<Rightarrow> 'a list \<Rightarrow> 'a list" where
  "js_sort cmp xs = foldr (insert_sorted cmp) xs []"

text \<open>What \<^verbatim>\<open>await fetch(...)\<close> and \<^verbatim>\<open>await response.json()\<close> can give: the fetch is
  rejected, or there is a response with its \<^verbatim>\<open>ok\<close> flag, its status and a body that
  parses as JSON or does not.\<close>

datatype fetch_result =
    Rejected
  | Response bool nat "jsval option"

text \<open>
  \<^verbatim>\<open>loadProjects\<close> up to the sort: the value of the variable \<^verbatim>\<open>projects\<close> after a run
  that did not throw before that point, or the exception that reached the \<^verbatim>\<open>catch\<close>
  block.  Nothing after the sort assigns to \<^verbatim>\<open>projects\<close>.
\<close>

definition loadProjects :: "fetch_result \<Rightarrow> error + project list" where
  "loadProjects r =
     (case r of
        Rejected \<Rightarrow> Inl FetchFailed
      | Response ok status body \<Rightarrow>
          if \<not> ok then Inl (FailedToLoad status)
          else (case body of
                  None \<Rightarrow> Inl SyntaxError
                | Some data \<Rightarrow>
                    if nullish data then Inl TypeError
                    else (case get_prop data ''projects'' of
                            JArr raws \<Rightarrow>
                              (case normalize_from 0 raws of
                                 Inl e \<Rightarrow> Inl e
                               | Inr ps \<Rightarrow> Inr (js_sort compare_dates ps))
                          | _ \<Rightarrow> Inl InvalidJSONStructure)))"

section \<open>Filtering\<close>

text \<open>The variables \<^verbatim>\<open>filterProjects\<close> reads and writes.  The two filters come from
  \<^verbatim>\<open>dataset.filter\<close> and \<^verbatim>\<open>dataset.type\<close> of the clicked button, which are strings.\<close>

record filter_state =
  projects :: "project list"
  filteredProjects :: "project list"
  currentCategory :: string
  currentType :: string

text \<open>\<^verbatim>\<open>p.category === currentCategory\<close> with a string on the right: true exactly for
  the same string.\<close>

definition filterProjects :: "filter_state \<Rightarrow> filter_state" where
  "filterProjects st =
     (let filtered = projects st;
          filtered = (if currentCategory st \<noteq> ''all''
                      then filter (\<lambda>p. category p = JStr (currentCategory st)) filtered
                      else filtered);
          filtered = (if currentType st \<noteq> ''all''
                      then filter (\<lambda>p. type_field p = JStr (currentType st)) filtered
                      else filtered)
      in st\<lparr>filteredProjects := filtered\<rparr>)"

section \<open>The modal\<close>

record modal_state =
  currentProject :: "project option"
  currentMediaIndex :: int

definition initial_modal :: modal_state where
  "initial_modal = \<lparr>currentProject = None, currentMediaIndex = 0\<rparr>"

text \<open>
  \<^verbatim>\<open>currentProject.media.length\<close>, for whatever value \<^verbatim>\<open>media\<close> holds: reading a
  property of null or undefined throws a TypeError, an array and a string have their
  length, an object has its own property \<^verbatim>\<open>length\<close> or undefined, and a boolean or a
  number has none.
\<close>

definition media_length :: "project \<Rightarrow> error + jsval" where
  "media_length p =
     (case media p of
        JUndefined \<Rightarrow> Inl TypeError
      | JNull \<Rightarrow> Inl TypeError
      | JBool b \<Rightarrow> Inr JUndefined
      | JNum r \<Rightarrow> Inr JUndefined
      | JStr s \<Rightarrow> Inr (JNum (real (length s)))
      | JArr xs \<Rightarrow> Inr (JNum (real (length xs)))
      | JObj kvs \<Rightarrow> Inr (get_prop (JObj kvs) ''length''))"

text \<open>
  The conversion to a number that \<^verbatim>\<open>length - 1\<close> applies to its left operand;
  \<^const>\<open>None\<close> is NaN.  Undefined is NaN, null is 0, a boolean is 0 or 1 and a number is
  itself.  A string, an array or an object (which only an object's own \<^verbatim>\<open>length\<close> can
  be) goes through the language's string-to-number and to-primitive conversions, which
  may also throw; they are the parameter \<open>conv\<close>.
\<close>

fun to_number :: "(jsval \<Rightarrow> error + real option) \<Rightarrow> jsval \<Rightarrow> error + real option" where
  "to_number conv JUndefined = Inr None"
| "to_number conv JNull = Inr (Some 0)"
| "to_number conv (JBool b) = Inr (Some (if b then 1 else 0))"
| "to_number conv (JNum r) = Inr (Some r)"
| "to_number conv v = conv v"

text \<open>
  The handlers of the modal, as functions on the two variables.  An exception ends a
  handler; the result is the state the handler leaves behind.  In \<^verbatim>\<open>nextMedia\<close> the
  exceptions of the condition come before the increment, so they leave the state as it
  was, and a comparison with NaN is false.  The subtraction and the comparison are
  taken over the reals; the doubles of the script agree with them on the indices the
  handlers produce, the integers from 0 on.
\<close>

definition openProjectModal :: "modal_state \<Rightarrow> project \<Rightarrow> modal_state" where
  "openProjectModal st p = st\<lparr>currentProject := Some p, currentMediaIndex := 0\<rparr>"

definition nextMedia :: "(jsval \<Rightarrow> error + real option) \<Rightarrow> modal_state \<Rightarrow> modal_state" where
  "nextMedia conv st =
     (case currentProject st of
        None \<Rightarrow> st
      | Some p \<Rightarrow>
          (case media_length p of
             Inl e \<Rightarrow> st
           | Inr len \<Rightarrow>
               (case to_number conv len of
                  Inl e \<Rightarrow> st
                | Inr None \<Rightarrow> st
                | Inr (Some n) \<Rightarrow>
                    if real_of_int (currentMediaIndex st) < n - 1
                    then st\<lparr>currentMediaIndex := currentMediaIndex st + 1\<rparr>
                    else st)))"

definition prevMedia :: "modal_state \<Rightarrow> modal_state" where
  "prevMedia st =
     (if currentMediaIndex st > 0
      then st\<lparr>currentMediaIndex := currentMediaIndex st - 1\<rparr>
      else st)"

definition closeModal :: "modal_state \<Rightarrow> modal_state" where
  "closeModal st = st\<lparr>currentProject := None, currentMediaIndex := 0\<rparr>"

text \<open>The states the four handlers can produce from the initial one.\<close>

inductive reachable :: "(jsval \<Rightarrow> error + real option) \<Rightarrow> modal_state \<Rightarrow> bool" where
  start: "reachable conv initial_modal"
| opened: "reachable conv st \<Longrightarrow> reachable conv (openProjectModal st p)"
| next_step: "reachable conv st \<Longrightarrow> reachable conv (nextMedia conv st)"
| prev_step: "reachable conv st \<Longrightarrow> reachable conv (prevMedia st)"
| closed: "reachable conv st \<Longrightarrow> reachable conv (closeModal st)"

text \<open>The bound the handlers keep while the open project's media is a list (an
  array): index 0 when the list is empty, and an index of the list otherwise.\<close>

definition index_ok :: "modal_state \<Rightarrow> bool" where
  "index_ok st =
     (case currentProject st of
        None \<Rightarrow> True
      | Some p \<Rightarrow>
          (case media p of
             JArr xs \<Rightarrow>
               0 \<le> currentMediaIndex st \<and>
               currentMediaIndex st \<le> max 0 (int (length xs) - 1)
           | _ \<Rightarrow> True))"

text \<open>The project that \<^verbatim>\<open>loadProjects\<close> makes of the empty object \<^verbatim>\<open>{}\<close> at index 0.\<close>

definition bare_project :: project where
  "bare_project =
     \<lparr>id_field = JNum 1, title = JStr ''Untitled Project'',
      category = JStr ''uncategorized'', type_field = JStr ''Other'',
      date = JStr ''Unknown Date'',
      sortDate = \<lparr>year = 2000, month = 1, sortKey = 0\<rparr>,
      tools = JArr [], skills = JArr [],
      description = JStr ''No description available.'',
      links = JArr [], media = JArr []\<rparr>"

section \<open>Lazy loading\<close>

text \<open>
  The part of the page the lazy loader touches: \<^verbatim>\<open>img\<close> elements (with or without the
  class \<^verbatim>\<open>lazy-image\<close>, with their \<^verbatim>\<open>src\<close> and \<^verbatim>\<open>data-src\<close> attributes), the
  \<^verbatim>\<open>div\<close>s of class \<^verbatim>\<open>thumbnail-placeholder\<close> or \<^verbatim>\<open>iframe-placeholder\<close> (with
  \<^verbatim>\<open>data-src\<close> and \<^verbatim>\<open>data-thumb-id\<close>), and the \<^verbatim>\<open>iframe\<close>s that replace them.
\<close>

datatype node =
    Img bool string "string option"
  | Placeholder "string option" string
  | Iframe string

record rect =
  top_edge :: real
  left_edge :: real
  bottom_edge :: real
  right_edge :: real

text \<open>An element with the rectangle \<^verbatim>\<open>getBoundingClientRect()\<close> returns for it when
  the handler tests it.\<close>

record element =
  node_of :: node
  rect_of :: rect

record viewport =
  innerHeight :: real
  clientHeight :: real
  innerWidth :: real
  clientWidth :: real

text \<open>\<^verbatim>\<open>a || b\<close> on numbers.\<close>

definition num_or :: "real \<Rightarrow> real \<Rightarrow> real" where
  "num_or a b = (if a \<noteq> 0 then a else b)"

definition isInViewport :: "viewport \<Rightarrow> rect \<Rightarrow> bool" where
  "isInViewport vp r =
     (top_edge r \<ge> 0 \<and> left_edge r \<ge> 0 \<and>
      bottom_edge r \<le> num_or (innerHeight vp) (clientHeight vp) \<and>
      right_edge r \<le> num_or (innerWidth vp) (clientWidth vp))"

text \<open>The wording of the specification, "the bounding box intersects the viewport":
  the rectangle and the viewport overlap.\<close>

definition spec_intersects_viewport :: "viewport \<Rightarrow> rect \<Rightarrow> bool" where
  "spec_intersects_viewport vp r =
     (top_edge r < num_or (innerHeight vp) (clientHeight vp) \<and> bottom_edge r > 0 \<and>
      left_edge r < num_or (innerWidth vp) (clientWidth vp) \<and> right_edge r > 0)"

text \<open>\<^verbatim>\<open>loadImage\<close>: nothing happens without a non-empty \<^verbatim>\<open>data-src\<close>.\<close>

fun loadImage :: "node \<Rightarrow> node" where
  "loadImage (Img lazy src (Some s)) = (if s = [] then Img lazy src (Some s) else Img False s None)"
| "loadImage n = n"

text \<open>\<^verbatim>\<open>loadIframe\<close>: the placeholder is replaced by a new \<^verbatim>\<open>iframe\<close> in its parent.\<close>

fun loadIframe :: "node \<Rightarrow> node" where
  "loadIframe (Placeholder (Some s) tid) = (if s = [] then Placeholder (Some s) tid else Iframe s)"
| "loadIframe n = n"

text \<open>The selectors: \<^verbatim>\<open>img.lazy-image\<close>, \<^verbatim>\<open>img.lazy-image[data-src]\<close>, the two
  placeholder classes, and the placeholders with \<^verbatim>\<open>[data-src]\<close>.\<close>

fun is_lazy_image :: "node \<Rightarrow> bool" where
  "is_lazy_image (Img lazy src ds) = lazy"
| "is_lazy_image n = False"

fun is_lazy_image_with_src :: "node \<Rightarrow> bool" where
  "is_lazy_image_with_src (Img lazy src ds) = (lazy \<and> ds \<noteq> None)"
| "is_lazy_image_with_src n = False"

fun is_placeholder :: "node \<Rightarrow> bool" where
  "is_placeholder (Placeholder ds tid) = True"
| "is_placeholder n = False"

fun is_placeholder_with_src :: "node \<Rightarrow> bool" where
  "is_placeholder_with_src (Placeholder ds tid) = (ds \<noteq> None)"
| "is_placeholder_with_src n = False"

text \<open>One \<^verbatim>\<open>forEach\<close> over a selection: the selected elements that pass
  \<^verbatim>\<open>isInViewport\<close> are loaded, every other element stays as it is.\<close>

definition load_selected ::
  "(node \<Rightarrow> bool) \<Rightarrow> (node \<Rightarrow> node) \<Rightarrow> viewport \<Rightarrow> element list \<Rightarrow> element list" where
  "load_selected sel load vp es =
     map (\<lambda>e. if sel (node_of e) \<and> isInViewport vp (rect_of e)
               then e\<lparr>node_of := load (node_of e)\<rparr> else e) es"

definition lazyLoadHandler :: "viewport \<Rightarrow> element list \<Rightarrow> element list" where
  "lazyLoadHandler vp es =
     load_selected is_placeholder_with_src loadIframe vp
       (load_selected is_lazy_image_with_src loadImage vp es)"

text \<open>The page: its elements, and whether \<^verbatim>\<open>lazyLoadHandler\<close> is registered for the
  \<^verbatim>\<open>scroll\<close> event of the window.\<close>

record page =
  elements :: "element list"
  scroll_listener :: bool

definition initLazyLoading :: "viewport \<Rightarrow> page \<Rightarrow> page" where
  "initLazyLoading vp pg =
     (let lazyImages = filter (\<lambda>e. is_lazy_image (node_of e)) (elements pg);
          lazyIframes = filter (\<lambda>e. is_placeholder (node_of e)) (elements pg)
      in \<lparr>elements =
            load_selected is_placeholder loadIframe vp
              (load_selected is_lazy_image loadImage vp (elements pg)),
          scroll_listener =
            (scroll_listener pg \<or> length lazyImages > 0 \<or> length lazyIframes > 0)\<rparr>)"

text \<open>A \<^verbatim>\<open>scroll\<close> event: the browser calls the handler if it is registered.  The
  event comes with the layout of that moment, a rectangle for every position.\<close>

definition relayout :: "(nat \<Rightarrow> rect) \<Rightarrow> element list \<Rightarrow> element list" where
  "relayout f es = map (\<lambda>(i, e). e\<lparr>rect_of := f i\<rparr>) (enumerate 0 es)"

definition on_scroll :: "viewport \<Rightarrow> (nat \<Rightarrow> rect) \<Rightarrow> page \<Rightarrow> page" where
  "on_scroll vp f pg =
     (if scroll_listener pg
      then pg\<lparr>elements := lazyLoadHandler vp (relayout f (elements pg))\<rparr>
      else pg\<lparr>elements := relayout f (elements pg)\<rparr>)"

text \<open>An element counts as activated once it is an \<^verbatim>\<open>iframe\<close>, or an image without
  \<^verbatim>\<open>data-src\<close> and without the class \<^verbatim>\<open>lazy-image\<close>.\<close>

fun activated :: "node \<Rightarrow> bool" where
  "activated (Img lazy src ds) = (\<not> lazy \<and> ds = None)"
| "activated (Placeholder ds tid) = False"
| "activated (Iframe src) = True"

text \<open>What happens to the page between two renders: a \<^verbatim>\<open>scroll\<close> event with the
  layout of that moment, or another pass of \<^verbatim>\<open>initLazyLoading\<close> over the same
  elements.\<close>

datatype lazy_event = Scroll viewport "nat \<Rightarrow> rect" | Recheck viewport

fun apply_event :: "lazy_event \<Rightarrow> page \<Rightarrow> page" where
  "apply_event (Scroll vp f) pg = on_scroll vp f pg"
| "apply_event (Recheck vp) pg = initLazyLoading vp pg"

definition run_events :: "lazy_event list \<Rightarrow> page \<Rightarrow> page" where
  "run_events evs pg = fold apply_event evs pg"

section \<open>Concrete inputs\<close>

text \<open>A document whose only project has a number as its date.\<close>

definition numeric_date_document :: fetch_result where
  "numeric_date_document =
     Response True 200
       (Some (JObj [(''projects'',
                     JArr [JObj [(''title'', JStr ''Poster''), (''date'', JNum 2024)]])]))"

text \<open>A document with a project dated \<^verbatim>\<open>1999\<close> and a project without a date, and what
  \<^verbatim>\<open>loadProjects\<close> makes of it.\<close>

definition undated_then_1999 :: fetch_result where
  "undated_then_1999 =
     Response True 200
       (Some (JObj [(''projects'', JArr [JObj [(''date'', JStr ''1999'')], JObj []])]))"

definition undated_then_1999_loaded :: "project list" where
  "undated_then_1999_loaded =
     [bare_project\<lparr>id_field := JNum 2\<rparr>,
      bare_project\<lparr>date := JStr ''1999'',
                    sortDate := \<lparr>year = 1999, month = 1, sortKey = 199900\<rparr>\<rparr>]"

text \<open>Three loaded projects with the category filter set to \<^verbatim>\<open>graphic\<close>.\<close>

definition two_graphic_one_video :: filter_state where
  "two_graphic_one_video =
     \<lparr>projects = [bare_project\<lparr>category := JStr ''graphic''\<rparr>,
                  bare_project\<lparr>category := JStr ''video''\<rparr>,
                  bare_project\<lparr>category := JStr ''graphic'', type_field := JStr ''Poster''\<rparr>],
      filteredProjects = [],
      currentCategory = ''graphic'',
      currentType = ''all''\<rparr>"

text \<open>A project with two media items.\<close>

definition two_media_project :: project where
  "two_media_project =
     bare_project\<lparr>media := JArr [JObj [(''type'', JStr ''image'')],
                                  JObj [(''type'', JStr ''video'')]]\<rparr>"

text \<open>A project whose \<^verbatim>\<open>media\<close> is the object \<^verbatim>\<open>{"length": 5}\<close>, and a conversion that
  makes NaN of every string, array and object.\<close>

definition length_five_project :: project where
  "length_five_project = bare_project\<lparr>media := JObj [(''length'', JNum 5)]\<rparr>"

definition conv_nan :: "jsval \<Rightarrow> error + real option" where
  "conv_nan v = Inr None"

text \<open>A viewport of 800 by 600, a lazy image whose box starts ten pixels above it, an
  image that is loaded, a placeholder inside the viewport, and a layout that puts every
  element far below the viewport.\<close>

definition desktop_viewport :: viewport where
  "desktop_viewport =
     \<lparr>innerHeight = 600, clientHeight = 600, innerWidth = 800, clientWidth = 800\<rparr>"

definition cut_off_image :: element where
  "cut_off_image =
     \<lparr>node_of = Img True [] (Some ''a.png''),
      rect_of = \<lparr>top_edge = - 10, left_edge = 0, bottom_edge = 100, right_edge = 100\<rparr>\<rparr>"

definition loaded_image :: element where
  "loaded_image =
     \<lparr>node_of = Img False ''a.png'' None,
      rect_of = \<lparr>top_edge = 0, left_edge = 0, bottom_edge = 100, right_edge = 100\<rparr>\<rparr>"

definition visible_placeholder :: element where
  "visible_placeholder =
     \<lparr>node_of = Placeholder (Some ''https://drive.google.com/file/d/x/preview'') ''thumb-1-0'',
      rect_of = \<lparr>top_edge = 0, left_edge = 0, bottom_edge = 100, right_edge = 100\<rparr>\<rparr>"

definition far_below :: "nat \<Rightarrow> rect" where
  "far_below i = \<lparr>top_edge = 5000, left_edge = 0, bottom_edge = 5100, right_edge = 100\<rparr>"

section \<open>Properties of the date parser\<close>

text \<open>
  C1: the date parser applied to "August 2024", "2024-08", "2024" and "Unknown Date"
  returns the sort keys 202408, 202408, 202400 and 0.
\<close>

theorem parseYearMonth_examples:
  "parseYearMonth (JStr ''August 2024'') = Inr \<lparr>year = 2024, month = 8, sortKey = 202408\<rparr> \<and>
   parseYearMonth (JStr ''2024-08'') = Inr \<lparr>year = 2024, month = 8, sortKey = 202408\<rparr> \<and>
   parseYearMonth (JStr ''2024'') = Inr \<lparr>year = 2024, month = 1, sortKey = 202400\<rparr> \<and>
   parseYearMonth (JStr ''Unknown Date'') = Inr \<lparr>year = 2000, month = 1, sortKey = 0\<rparr>"
  by code_simp

theorem parseYearMonth_examples_witness:
  "map_sum id sortKey (parseYearMonth (JStr ''August 2024'')) = Inr 202408 \<and>
   map_sum id sortKey (parseYearMonth (JStr ''2024-08'')) = Inr 202408 \<and>
   map_sum id sortKey (parseYearMonth (JStr ''2024'')) = Inr 202400 \<and>
   map_sum id sortKey (parseYearMonth (JStr ''Unknown Date'')) = Inr 0"
  using parseYearMonth_examples by simp

subsection \<open>The matchers find exactly the occurrences\<close>

lemma digit_not_space: "is_digit c \<Longrightarrow> \<not> is_space c"
  by (auto simp: is_digit_def is_space_def)

lemma four_digits_Some:
  "four_digits t = Some y \<longleftrightarrow> (\<exists>post. t = y @ post \<and> length y = 4 \<and> list_all is_digit y)"
proof
  assume "four_digits t = Some y"
  then have "4 \<le> length t" "list_all is_digit (take 4 t)" "y = take 4 t"
    by (auto simp: four_digits_def split: if_splits)
  then have "t = y @ drop 4 t \<and> length y = 4 \<and> list_all is_digit y" by simp
  then show "\<exists>post. t = y @ post \<and> length y = 4 \<and> list_all is_digit y" by blast
next
  assume "\<exists>post. t = y @ post \<and> length y = 4 \<and> list_all is_digit y"
  then show "four_digits t = Some y" by (auto simp: four_digits_def)
qed

lemma dropWhile_spaces_append:
  "list_all is_space ws \<Longrightarrow> is_digit d \<Longrightarrow> dropWhile is_space (ws @ d # r) = d # r"
  by (induction ws) (auto simp: digit_not_space)

lemma spaces_year_Some:
  "spaces_year t = Some y \<longleftrightarrow>
     (\<exists>ws post. t = ws @ y @ post \<and> ws \<noteq> [] \<and> list_all is_space ws \<and>
        length y = 4 \<and> list_all is_digit y)"
proof
  assume a: "spaces_year t = Some y"
  then obtain c cs where t: "t = c # cs" and c: "is_space c"
    and f: "four_digits (dropWhile is_space cs) = Some y"
    by (auto simp: spaces_year_def split: list.splits if_splits)
  from f obtain post where p: "dropWhile is_space cs = y @ post" "length y = 4" "list_all is_digit y"
    by (auto simp: four_digits_Some)
  have "cs = takeWhile is_space cs @ y @ post" using p(1) by (metis takeWhile_dropWhile_id)
  then have "t = (c # takeWhile is_space cs) @ y @ post" using t by simp
  moreover have "list_all is_space (c # takeWhile is_space cs)"
    using c by (auto simp: list_all_iff dest: set_takeWhileD)
  ultimately show "\<exists>ws post. t = ws @ y @ post \<and> ws \<noteq> [] \<and> list_all is_space ws \<and>
        length y = 4 \<and> list_all is_digit y" using p by blast
next
  assume "\<exists>ws post. t = ws @ y @ post \<and> ws \<noteq> [] \<and> list_all is_space ws \<and>
        length y = 4 \<and> list_all is_digit y"
  then obtain ws post where h: "t = ws @ y @ post" "ws \<noteq> []" "list_all is_space ws"
        "length y = 4" "list_all is_digit y" by blast
  from h(2) obtain w ws' where ws: "ws = w # ws'" by (cases ws) auto
  from h(4) obtain d ds where y: "y = d # ds" by (cases y) auto
  have "dropWhile is_space (ws' @ d # (ds @ post)) = d # (ds @ post)"
    using h(3,5) ws y by (intro dropWhile_spaces_append) auto
  then have "four_digits (dropWhile is_space (ws' @ y @ post)) = Some y"
    using h(4,5) y by (auto simp: four_digits_Some)
  then show "spaces_year t = Some y" using h ws by (simp add: spaces_year_def)
qed

lemma ci_prefix_iff:
  "ci_prefix n t \<longleftrightarrow> (\<exists>name post. t = name @ post \<and> list_all2 ci_eq n name)"
proof (induction n t rule: ci_prefix.induct)
  case (1 t)
  then show ?case by simp
next
  case (2 p ps)
  then show ?case by simp
next
  case (3 p ps c cs)
  show ?case
  proof
    assume "ci_prefix (p # ps) (c # cs)"
    then have "ci_eq p c" "ci_prefix ps cs" by auto
    with 3 obtain name post where "cs = name @ post" "list_all2 ci_eq ps name" by blast
    then have "c # cs = (c # name) @ post \<and> list_all2 ci_eq (p # ps) (c # name)"
      using \<open>ci_eq p c\<close> by simp
    then show "\<exists>name post. c # cs = name @ post \<and> list_all2 ci_eq (p # ps) name" by blast
  next
    assume "\<exists>name post. c # cs = name @ post \<and> list_all2 ci_eq (p # ps) name"
    then obtain name post where h: "c # cs = name @ post" "list_all2 ci_eq (p # ps) name" by blast
    then obtain x xs where n: "name = x # xs" "ci_eq p x" "list_all2 ci_eq ps xs"
      by (auto simp: list_all2_Cons1)
    with h have "c = x" "cs = xs @ post" by auto
    with n 3 show "ci_prefix (p # ps) (c # cs)" by auto
  qed
qed

lemma ci_prefix_take:
  "ci_prefix n t \<Longrightarrow> list_all2 ci_eq n (take (length n) t) \<and> length n \<le> length t"
  by (induction n t rule: ci_prefix.induct) auto

lemma month_year_at_SomeD:
  "month_year_at ns t = Some (g1, y) \<Longrightarrow>
     \<exists>n \<in> set ns. ci_prefix n t \<and> g1 = take (length n) t \<and>
        spaces_year (drop (length n) t) = Some y"
  by (induction ns) (auto split: if_splits option.splits)

lemma month_year_at_None_iff:
  "month_year_at ns t = None \<longleftrightarrow>
     (\<forall>n \<in> set ns. \<not> (ci_prefix n t \<and> spaces_year (drop (length n) t) \<noteq> None))"
  by (induction ns) (auto split: if_splits option.splits)


lemma leftmost_SomeD:
  "leftmost pat t = Some r \<Longrightarrow> \<exists>pre rest. t = pre @ rest \<and> pat rest = Some r"
proof (induction t)
  case Nil
  then show ?case by simp
next
  case (Cons c cs)
  show ?case
  proof (cases "pat (c # cs)")
    case None
    with Cons.prems have "leftmost pat cs = Some r" by simp
    with Cons.IH obtain pre rest where "cs = pre @ rest" "pat rest = Some r" by blast
    then have "c # cs = (c # pre) @ rest \<and> pat rest = Some r" by simp
    then show ?thesis by blast
  next
    case (Some a)
    with Cons.prems have "pat (c # cs) = Some r" by simp
    then have "c # cs = [] @ (c # cs) \<and> pat (c # cs) = Some r" by simp
    then show ?thesis by blast
  qed
qed

lemma leftmost_append:
  "pat rest \<noteq> None \<Longrightarrow> rest \<noteq> [] \<Longrightarrow> leftmost pat (pre @ rest) \<noteq> None"
proof (induction pre)
  case Nil
  then show ?case by (cases rest) auto
next
  case (Cons p ps)
  then show ?case by (auto split: option.splits)
qed

lemma leftmost_head: "pat t = Some r \<Longrightarrow> t \<noteq> [] \<Longrightarrow> leftmost pat t = Some r"
  by (cases t) auto

lemma month_year_at_Some_iff:
  "(\<exists>r. month_year_at ns t = Some r) \<longleftrightarrow>
     (\<exists>name ws ds post. t = name @ ws @ ds @ post \<and>
        (\<exists>n \<in> set ns. list_all2 ci_eq n name) \<and>
        ws \<noteq> [] \<and> list_all is_space ws \<and> length ds = 4 \<and> list_all is_digit ds)"
proof
  assume "\<exists>r. month_year_at ns t = Some r"
  then obtain g1 y where "month_year_at ns t = Some (g1, y)" by auto
  then obtain n where n: "n \<in> set ns" "ci_prefix n t" "g1 = take (length n) t"
      "spaces_year (drop (length n) t) = Some y"
    using month_year_at_SomeD by blast
  from n(4) obtain ws post where w: "drop (length n) t = ws @ y @ post" "ws \<noteq> []"
      "list_all is_space ws" "length y = 4" "list_all is_digit y"
    by (auto simp: spaces_year_Some)
  have "t = take (length n) t @ ws @ y @ post" using w(1) by (metis append_take_drop_id)
  moreover have "list_all2 ci_eq n (take (length n) t)" using n(2) ci_prefix_take by blast
  ultimately show "\<exists>name ws ds post. t = name @ ws @ ds @ post \<and>
        (\<exists>n \<in> set ns. list_all2 ci_eq n name) \<and>
        ws \<noteq> [] \<and> list_all is_space ws \<and> length ds = 4 \<and> list_all is_digit ds"
    using n(1) w by blast
next
  assume "\<exists>name ws ds post. t = name @ ws @ ds @ post \<and>
        (\<exists>n \<in> set ns. list_all2 ci_eq n name) \<and>
        ws \<noteq> [] \<and> list_all is_space ws \<and> length ds = 4 \<and> list_all is_digit ds"
  then obtain name ws ds post n where h: "t = name @ ws @ ds @ post" "n \<in> set ns"
      "list_all2 ci_eq n name" "ws \<noteq> []" "list_all is_space ws" "length ds = 4"
      "list_all is_digit ds" by blast
  have p: "ci_prefix n t" using h(1,3) ci_prefix_iff by blast
  have "length name = length n" using h(3) by (simp add: list_all2_lengthD)
  then have "drop (length n) t = ws @ ds @ post" using h(1) by simp
  then have "spaces_year (drop (length n) t) = Some ds"
    using h(4-7) spaces_year_Some by blast
  with p h(2) have "month_year_at ns t \<noteq> None"
    by (subst month_year_at_None_iff) auto
  then show "\<exists>r. month_year_at ns t = Some r" by auto
qed

lemma monthYearMatch_occurs:
  "monthYearMatch t \<noteq> None \<longleftrightarrow> occurs_month_year t"
proof
  assume "monthYearMatch t \<noteq> None"
  then obtain r where "leftmost (month_year_at month_alternatives) t = Some r"
    by (auto simp: monthYearMatch_def)
  then have "\<exists>pre rest. t = pre @ rest \<and> month_year_at month_alternatives rest = Some r"
    by (rule leftmost_SomeD)
  then obtain pre rest where pr: "t = pre @ rest" "month_year_at month_alternatives rest = Some r"
    by (elim exE conjE)
  from pr(2) have "\<exists>r. month_year_at month_alternatives rest = Some r" by simp
  then have "\<exists>name ws ds post. rest = name @ ws @ ds @ post \<and>
        (\<exists>n \<in> set month_alternatives. list_all2 ci_eq n name) \<and>
        ws \<noteq> [] \<and> list_all is_space ws \<and> length ds = 4 \<and> list_all is_digit ds"
    by (rule iffD1[OF month_year_at_Some_iff])
  then obtain name ws ds post where "rest = name @ ws @ ds @ post \<and>
        (\<exists>n \<in> set month_alternatives. list_all2 ci_eq n name) \<and>
        ws \<noteq> [] \<and> list_all is_space ws \<and> length ds = 4 \<and> list_all is_digit ds"
    by (elim exE)
  then have "t = pre @ name @ ws @ ds @ post \<and>
        (\<exists>n \<in> set month_alternatives. list_all2 ci_eq n name) \<and>
        ws \<noteq> [] \<and> list_all is_space ws \<and> length ds = 4 \<and> list_all is_digit ds"
    using pr(1) by simp
  then show "occurs_month_year t" unfolding occurs_month_year_def by (intro exI)
next
  assume "occurs_month_year t"
  then obtain pre name ws ds post where h: "t = pre @ name @ ws @ ds @ post \<and>
        (\<exists>n \<in> set month_alternatives. list_all2 ci_eq n name) \<and>
        ws \<noteq> [] \<and> list_all is_space ws \<and> length ds = 4 \<and> list_all is_digit ds"
    unfolding occurs_month_year_def by (elim exE)
  then have "name @ ws @ ds @ post = name @ ws @ ds @ post \<and>
        (\<exists>n \<in> set month_alternatives. list_all2 ci_eq n name) \<and>
        ws \<noteq> [] \<and> list_all is_space ws \<and> length ds = 4 \<and> list_all is_digit ds"
    by simp
  then have "\<exists>name' ws' ds' post'. name @ ws @ ds @ post = name' @ ws' @ ds' @ post' \<and>
        (\<exists>n \<in> set month_alternatives. list_all2 ci_eq n name') \<and>
        ws' \<noteq> [] \<and> list_all is_space ws' \<and> length ds' = 4 \<and> list_all is_digit ds'"
    by (intro exI)
  then have "\<exists>r. month_year_at month_alternatives (name @ ws @ ds @ post) = Some r"
    by (rule iffD2[OF month_year_at_Some_iff])
  then have "month_year_at month_alternatives (name @ ws @ ds @ post) \<noteq> None" by auto
  moreover have "name @ ws @ ds @ post \<noteq> []" using h by simp
  ultimately have "leftmost (month_year_at month_alternatives) (pre @ name @ ws @ ds @ post) \<noteq> None"
    by (rule leftmost_append)
  then show "monthYearMatch t \<noteq> None" using h by (simp add: monthYearMatch_def)
qed

lemma dash_at_Some_iff:
  "(\<exists>r. dash_at t = Some r) \<longleftrightarrow>
     (\<exists>ds sep m post. t = ds @ sep # m # post \<and> length ds = 4 \<and> list_all is_digit ds \<and>
        (sep = CHR ''-'' \<or> sep = CHR ''/'') \<and> is_digit m)"
proof
  assume "\<exists>r. dash_at t = Some r"
  then obtain y s m rest where h: "four_digits t = Some y" "drop 4 t = s # m # rest"
     "s = CHR ''-'' \<or> s = CHR ''/''" "is_digit m"
    by (auto simp: dash_at_def split: option.splits list.splits if_splits)
  from h(1) obtain post where "t = y @ post" "length y = 4" "list_all is_digit y"
    by (auto simp: four_digits_Some)
  with h show "\<exists>ds sep m post. t = ds @ sep # m # post \<and> length ds = 4 \<and> list_all is_digit ds \<and>
        (sep = CHR ''-'' \<or> sep = CHR ''/'') \<and> is_digit m" by auto
next
  assume "\<exists>ds sep m post. t = ds @ sep # m # post \<and> length ds = 4 \<and> list_all is_digit ds \<and>
        (sep = CHR ''-'' \<or> sep = CHR ''/'') \<and> is_digit m"
  then obtain ds sep m post where h: "t = ds @ sep # m # post" "length ds = 4" "list_all is_digit ds"
        "sep = CHR ''-'' \<or> sep = CHR ''/''" "is_digit m" by blast
  then have "four_digits t = Some ds" by (auto simp: four_digits_Some)
  then show "\<exists>r. dash_at t = Some r" using h by (auto simp: dash_at_def)
qed

lemma dashMatch_occurs: "dashMatch t \<noteq> None \<longleftrightarrow> occurs_year_month t"
proof
  assume "dashMatch t \<noteq> None"
  then obtain r where "leftmost dash_at t = Some r" by (auto simp: dashMatch_def)
  then have "\<exists>pre rest. t = pre @ rest \<and> dash_at rest = Some r"
    by (rule leftmost_SomeD)
  then obtain pre rest where pr: "t = pre @ rest" "dash_at rest = Some r"
    by (elim exE conjE)
  from pr(2) obtain ds sep m post where "rest = ds @ sep # m # post" "length ds = 4"
     "list_all is_digit ds" "sep = CHR ''-'' \<or> sep = CHR ''/''" "is_digit m"
    using dash_at_Some_iff[of rest] by blast
  with pr(1) show "occurs_year_month t" unfolding occurs_year_month_def by blast
next
  assume "occurs_year_month t"
  then obtain pre ds sep m post where h: "t = pre @ ds @ sep # m # post" "length ds = 4"
     "list_all is_digit ds" "sep = CHR ''-'' \<or> sep = CHR ''/''" "is_digit m"
    unfolding occurs_year_month_def by blast
  then have "\<exists>r. dash_at (ds @ sep # m # post) = Some r"
    using dash_at_Some_iff[of "ds @ sep # m # post"] by blast
  then have "leftmost dash_at t \<noteq> None"
    unfolding h(1) by (intro leftmost_append) auto
  then show "dashMatch t \<noteq> None" by (simp add: dashMatch_def)
qed

lemma yearMatch_occurs: "yearMatch t \<noteq> None \<longleftrightarrow> occurs_year t"
proof
  assume "yearMatch t \<noteq> None"
  then obtain r where "leftmost four_digits t = Some r" by (auto simp: yearMatch_def)
  then have "\<exists>pre rest. t = pre @ rest \<and> four_digits rest = Some r"
    by (rule leftmost_SomeD)
  then obtain pre rest where pr: "t = pre @ rest" "four_digits rest = Some r"
    by (elim exE conjE)
  then show "occurs_year t" unfolding occurs_year_def four_digits_Some by blast
next
  assume "occurs_year t"
  then obtain pre ds post where h: "t = pre @ ds @ post" "length ds = 4" "list_all is_digit ds"
    unfolding occurs_year_def by blast
  then have "four_digits (ds @ post) = Some ds" by (auto simp: four_digits_Some)
  moreover have "ds @ post \<noteq> []" using h(2) by auto
  ultimately have "leftmost four_digits t \<noteq> None"
    unfolding h(1) by (intro leftmost_append) auto
  then show "yearMatch t \<noteq> None" by (simp add: yearMatch_def)
qed

subsection \<open>Order of the formats\<close>

lemma parse_date_string_Nil:
  "parse_date_string [] = \<lparr>year = 2000, month = 1, sortKey = 0\<rparr>"
  by (simp add: parse_date_string_def toLowerCase_def monthYearMatch_def dashMatch_def
      yearMatch_def)

lemma parse_date_string_Unknown:
  "parse_date_string ''Unknown Date'' = \<lparr>year = 2000, month = 1, sortKey = 0\<rparr>"
  by code_simp

lemma parseYearMonth_string: "parseYearMonth (JStr s) = Inr (parse_date_string s)"
  using parse_date_string_Nil parse_date_string_Unknown
  by (auto simp: parseYearMonth_def)

lemma monthYearMatch_None: "monthYearMatch t = None \<longleftrightarrow> \<not> occurs_month_year t"
  using monthYearMatch_occurs[of t] by blast

lemma dashMatch_None: "dashMatch t = None \<longleftrightarrow> \<not> occurs_year_month t"
  using dashMatch_occurs[of t] by blast

lemma yearMatch_None: "yearMatch t = None \<longleftrightarrow> \<not> occurs_year t"
  using yearMatch_occurs[of t] by blast

text \<open>
  C2: for every input string \<^verbatim>\<open>parseYearMonth\<close> returns a value (it does not throw), and
  it tries the formats in order: when a month name followed by a year occurs in the
  lower-cased text the result comes from that match; otherwise, when a numeric
  year-month occurs, from that one; otherwise, when four digits occur, from the bare
  year; and when none of the three occurs the result has sort key 0 and the default year
  2000.
\<close>

theorem parseYearMonth_total_ordered:
  "(\<exists>r. parseYearMonth (JStr s) = Inr r) \<and>
   (occurs_month_year (toLowerCase s) \<longrightarrow>
      (\<exists>g1 g2. monthYearMatch (toLowerCase s) = Some (g1, g2) \<and>
         parseYearMonth (JStr s) =
           Inr \<lparr>year = parseInt10 g2, month = month_of_name g1,
                sortKey = parseInt10 g2 * 100 + month_of_name g1\<rparr>)) \<and>
   (\<not> occurs_month_year (toLowerCase s) \<and> occurs_year_month (toLowerCase s) \<longrightarrow>
      (\<exists>g1 g2. dashMatch (toLowerCase s) = Some (g1, g2) \<and>
         parseYearMonth (JStr s) =
           Inr \<lparr>year = parseInt10 g1, month = parseInt10 g2,
                sortKey = parseInt10 g1 * 100 + parseInt10 g2\<rparr>)) \<and>
   (\<not> occurs_month_year (toLowerCase s) \<and> \<not> occurs_year_month (toLowerCase s) \<and>
    occurs_year (toLowerCase s) \<longrightarrow>
      (\<exists>g1. yearMatch (toLowerCase s) = Some g1 \<and>
         parseYearMonth (JStr s) =
           Inr \<lparr>year = parseInt10 g1, month = 1, sortKey = parseInt10 g1 * 100\<rparr>)) \<and>
   (\<not> occurs_month_year (toLowerCase s) \<and> \<not> occurs_year_month (toLowerCase s) \<and>
    \<not> occurs_year (toLowerCase s) \<longrightarrow>
      parseYearMonth (JStr s) = Inr \<lparr>year = 2000, month = 1, sortKey = 0\<rparr>)"
proof (intro conjI impI)
  show "\<exists>r. parseYearMonth (JStr s) = Inr r" by (simp add: parseYearMonth_string)
next
  assume "occurs_month_year (toLowerCase s)"
  then have "monthYearMatch (toLowerCase s) \<noteq> None"
    by (simp add: monthYearMatch_None)
  then obtain g1 g2 where m: "monthYearMatch (toLowerCase s) = Some (g1, g2)"
    by auto
  then show "\<exists>g1 g2. monthYearMatch (toLowerCase s) = Some (g1, g2) \<and>
         parseYearMonth (JStr s) =
           Inr \<lparr>year = parseInt10 g2, month = month_of_name g1,
                sortKey = parseInt10 g2 * 100 + month_of_name g1\<rparr>"
    by (simp add: parseYearMonth_string parse_date_string_def Let_def)
next
  assume "\<not> occurs_month_year (toLowerCase s) \<and> occurs_year_month (toLowerCase s)"
  then have n: "monthYearMatch (toLowerCase s) = None" "dashMatch (toLowerCase s) \<noteq> None"
    by (simp_all add: monthYearMatch_None dashMatch_None)
  then obtain g1 g2 where "dashMatch (toLowerCase s) = Some (g1, g2)" by auto
  with n show "\<exists>g1 g2. dashMatch (toLowerCase s) = Some (g1, g2) \<and>
         parseYearMonth (JStr s) =
           Inr \<lparr>year = parseInt10 g1, month = parseInt10 g2,
                sortKey = parseInt10 g1 * 100 + parseInt10 g2\<rparr>"
    by (simp add: parseYearMonth_string parse_date_string_def Let_def)
next
  assume "\<not> occurs_month_year (toLowerCase s) \<and> \<not> occurs_year_month (toLowerCase s) \<and>
    occurs_year (toLowerCase s)"
  then have n: "monthYearMatch (toLowerCase s) = None"
      "dashMatch (toLowerCase s) = None" "yearMatch (toLowerCase s) \<noteq> None"
    by (simp_all add: monthYearMatch_None dashMatch_None yearMatch_None)
  then obtain g1 where "yearMatch (toLowerCase s) = Some g1" by auto
  with n show "\<exists>g1. yearMatch (toLowerCase s) = Some g1 \<and>
         parseYearMonth (JStr s) =
           Inr \<lparr>year = parseInt10 g1, month = 1, sortKey = parseInt10 g1 * 100\<rparr>"
    by (simp add: parseYearMonth_string parse_date_string_def Let_def)
next
  assume "\<not> occurs_month_year (toLowerCase s) \<and> \<not> occurs_year_month (toLowerCase s) \<and>
    \<not> occurs_year (toLowerCase s)"
  then have m: "monthYearMatch (toLowerCase s) = None"
      "dashMatch (toLowerCase s) = None" "yearMatch (toLowerCase s) = None"
    by (simp_all add: monthYearMatch_None dashMatch_None yearMatch_None)
  then show "parseYearMonth (JStr s) = Inr \<lparr>year = 2000, month = 1, sortKey = 0\<rparr>"
    by (simp add: parseYearMonth_string parse_date_string_def Let_def)
qed

lemma occ_ex1: "occurs_month_year (toLowerCase ''2023-01 August 2024'')"
  unfolding monthYearMatch_occurs[symmetric] by code_simp
lemma occ_ex2: "\<not> occurs_month_year (toLowerCase ''2024-08'') \<and> occurs_year_month (toLowerCase ''2024-08'')"
  unfolding monthYearMatch_occurs[symmetric] dashMatch_occurs[symmetric] by code_simp
lemma occ_ex3: "\<not> occurs_month_year (toLowerCase ''2024'') \<and> \<not> occurs_year_month (toLowerCase ''2024'') \<and> occurs_year (toLowerCase ''2024'')"
  unfolding monthYearMatch_occurs[symmetric] dashMatch_occurs[symmetric] yearMatch_occurs[symmetric] by code_simp
lemma occ_ex4: "\<not> occurs_month_year (toLowerCase ''Coming soon'') \<and> \<not> occurs_year_month (toLowerCase ''Coming soon'') \<and> \<not> occurs_year (toLowerCase ''Coming soon'')"
  unfolding monthYearMatch_occurs[symmetric] dashMatch_occurs[symmetric] yearMatch_occurs[symmetric] by code_simp

theorem parseYearMonth_total_ordered_witness:
  "occurs_month_year (toLowerCase ''2023-01 August 2024'') \<and>
   parseYearMonth (JStr ''2023-01 August 2024'') =
     Inr \<lparr>year = 2024, month = 8, sortKey = 202408\<rparr> \<and>
   (\<not> occurs_month_year (toLowerCase ''2024-08'') \<and> occurs_year_month (toLowerCase ''2024-08'')) \<and>
   parseYearMonth (JStr ''2024-08'') = Inr \<lparr>year = 2024, month = 8, sortKey = 202408\<rparr> \<and>
   (\<not> occurs_month_year (toLowerCase ''2024'') \<and> \<not> occurs_year_month (toLowerCase ''2024'') \<and>
      occurs_year (toLowerCase ''2024'')) \<and>
   parseYearMonth (JStr ''2024'') = Inr \<lparr>year = 2024, month = 1, sortKey = 202400\<rparr> \<and>
   (\<not> occurs_month_year (toLowerCase ''Coming soon'') \<and>
      \<not> occurs_year_month (toLowerCase ''Coming soon'') \<and>
      \<not> occurs_year (toLowerCase ''Coming soon'')) \<and>
   parseYearMonth (JStr ''Coming soon'') = Inr \<lparr>year = 2000, month = 1, sortKey = 0\<rparr>"
proof -
  have a: "monthYearMatch (toLowerCase ''2023-01 August 2024'') = Some (''august'', ''2024'')"
    by code_simp
  have b: "dashMatch (toLowerCase ''2024-08'') = Some (''2024'', ''08'')" by code_simp
  have c: "yearMatch (toLowerCase ''2024'') = Some ''2024''" by code_simp
  have v: "parseInt10 ''2024'' = 2024" "parseInt10 ''08'' = 8" "month_of_name ''august'' = 8"
    by code_simp+
  show ?thesis
    using parseYearMonth_total_ordered[of "''2023-01 August 2024''"]
      parseYearMonth_total_ordered[of "''2024-08''"]
      parseYearMonth_total_ordered[of "''2024''"]
      parseYearMonth_total_ordered[of "''Coming soon''"]
      occ_ex1 occ_ex2 occ_ex3 occ_ex4 a b c v
    by (simp del: One_nat_def)
qed

subsection \<open>The sort key\<close>

text \<open>
  C3, as stated: for every input string the \<^verbatim>\<open>sortKey\<close> of the result is
  \<open>year * 100 + month\<close> of the same result.  The text \<^verbatim>\<open>2024\<close> refutes it: the bare-year
  branch returns month 1 and the key \<open>year * 100\<close>.
\<close>

theorem sortKey_formula_counterexample:
  "parseYearMonth (JStr ''2024'') = Inr \<lparr>year = 2024, month = 1, sortKey = 202400\<rparr> \<and>
   \<not> (\<forall>s r. parseYearMonth (JStr s) = Inr r \<longrightarrow> sortKey r = year r * 100 + month r)"
proof -
  have e: "parseYearMonth (JStr ''2024'') = Inr \<lparr>year = 2024, month = 1, sortKey = 202400\<rparr>"
    by code_simp
  have "\<not> (\<forall>s r. parseYearMonth (JStr s) = Inr r \<longrightarrow> sortKey r = year r * 100 + month r)"
  proof
    assume "\<forall>s r. parseYearMonth (JStr s) = Inr r \<longrightarrow> sortKey r = year r * 100 + month r"
    with e have "sortKey \<lparr>year = 2024, month = 1, sortKey = 202400\<rparr> =
       year \<lparr>year = 2024, month = 1, sortKey = 202400\<rparr> * 100 +
       month \<lparr>year = 2024, month = 1, sortKey = 202400\<rparr>" by blast
    then show False by simp
  qed
  with e show ?thesis by simp
qed

text \<open>
  C3, amended: the \<^verbatim>\<open>sortKey\<close> is \<open>year * 100 + month\<close> when the month-name format or
  the numeric year-month format matches; when only a bare four-digit year matches it is
  \<open>year * 100\<close> while the month is 1; and when nothing matches it is 0 while the year is
  2000 and the month is 1.
\<close>

theorem sortKey_by_format:
  "\<exists>r. parseYearMonth (JStr s) = Inr r \<and>
     (occurs_month_year (toLowerCase s) \<or> occurs_year_month (toLowerCase s) \<longrightarrow>
        sortKey r = year r * 100 + month r) \<and>
     (\<not> occurs_month_year (toLowerCase s) \<and> \<not> occurs_year_month (toLowerCase s) \<and>
      occurs_year (toLowerCase s) \<longrightarrow> sortKey r = year r * 100 \<and> month r = 1) \<and>
     (\<not> occurs_month_year (toLowerCase s) \<and> \<not> occurs_year_month (toLowerCase s) \<and>
      \<not> occurs_year (toLowerCase s) \<longrightarrow> sortKey r = 0 \<and> year r = 2000 \<and> month r = 1)"
proof -
  let ?t = "toLowerCase s"
  have "(occurs_month_year ?t \<or> occurs_year_month ?t \<longrightarrow>
        sortKey (parse_date_string s) = year (parse_date_string s) * 100 + month (parse_date_string s)) \<and>
     (\<not> occurs_month_year ?t \<and> \<not> occurs_year_month ?t \<and> occurs_year ?t \<longrightarrow>
        sortKey (parse_date_string s) = year (parse_date_string s) * 100 \<and> month (parse_date_string s) = 1) \<and>
     (\<not> occurs_month_year ?t \<and> \<not> occurs_year_month ?t \<and> \<not> occurs_year ?t \<longrightarrow>
        sortKey (parse_date_string s) = 0 \<and> year (parse_date_string s) = 2000 \<and> month (parse_date_string s) = 1)"
    unfolding monthYearMatch_occurs[symmetric] dashMatch_occurs[symmetric]
      yearMatch_occurs[symmetric]
    by (cases "monthYearMatch ?t"; cases "dashMatch ?t"; cases "yearMatch ?t")
       (auto simp: parse_date_string_def Let_def)
  then show ?thesis by (simp add: parseYearMonth_string)
qed

theorem sortKey_by_format_witness:
  "(occurs_month_year (toLowerCase ''Dec 2023'') \<or> occurs_year_month (toLowerCase ''Dec 2023'')) \<and>
   (\<not> occurs_month_year (toLowerCase ''2024'') \<and> \<not> occurs_year_month (toLowerCase ''2024'') \<and>
      occurs_year (toLowerCase ''2024'')) \<and>
   (\<not> occurs_month_year (toLowerCase ''soon'') \<and> \<not> occurs_year_month (toLowerCase ''soon'') \<and>
      \<not> occurs_year (toLowerCase ''soon'')) \<and>
   (\<exists>r. parseYearMonth (JStr ''Dec 2023'') = Inr r \<and> sortKey r = year r * 100 + month r) \<and>
   (\<exists>r. parseYearMonth (JStr ''2024'') = Inr r \<and> sortKey r = year r * 100 \<and> month r = 1) \<and>
   (\<exists>r. parseYearMonth (JStr ''soon'') = Inr r \<and> sortKey r = 0 \<and> year r = 2000 \<and> month r = 1)"
proof -
  have a: "occurs_month_year (toLowerCase ''Dec 2023'')"
    unfolding monthYearMatch_occurs[symmetric] by code_simp
  have b: "\<not> occurs_month_year (toLowerCase ''2024'') \<and> \<not> occurs_year_month (toLowerCase ''2024'') \<and>
      occurs_year (toLowerCase ''2024'')"
    unfolding monthYearMatch_occurs[symmetric] dashMatch_occurs[symmetric] yearMatch_occurs[symmetric]
    by code_simp
  have c: "\<not> occurs_month_year (toLowerCase ''soon'') \<and> \<not> occurs_year_month (toLowerCase ''soon'') \<and>
      \<not> occurs_year (toLowerCase ''soon'')"
    unfolding monthYearMatch_occurs[symmetric] dashMatch_occurs[symmetric] yearMatch_occurs[symmetric]
    by code_simp
  show ?thesis
    using sortKey_by_format[of "''Dec 2023''"] sortKey_by_format[of "''2024''"]
      sortKey_by_format[of "''soon''"] a b c
    by blast
qed

lemma digit_lower: "is_digit c \<Longrightarrow> toLowerCase_char c = c"
  by (simp add: is_digit_def toLowerCase_char_def)

lemma sep_lower: "c = CHR ''-'' \<or> c = CHR ''/'' \<Longrightarrow> toLowerCase_char c = c"
  by (auto simp: toLowerCase_char_def)

lemma sep_not_space: "c = CHR ''-'' \<or> c = CHR ''/'' \<Longrightarrow> \<not> is_space c"
  by (auto simp: is_space_def)

lemma no_space_no_month_year:
  assumes "\<forall>c \<in> set t. \<not> is_space c"
  shows "\<not> occurs_month_year t"
proof
  assume "occurs_month_year t"
  then obtain pre name ws ds post where h: "t = pre @ name @ ws @ ds @ post \<and>
        (\<exists>n \<in> set month_alternatives. list_all2 ci_eq n name) \<and>
        ws \<noteq> [] \<and> list_all is_space ws \<and> length ds = 4 \<and> list_all is_digit ds"
    unfolding occurs_month_year_def by (elim exE)
  then obtain w ws' where "ws = w # ws'" by (cases ws) auto
  with h have "w \<in> set t" "is_space w" by auto
  with assms show False by blast
qed

text \<open>
  C10: in the numeric format the month is not validated.  For four digits \<open>y\<close>, a dash
  or a slash, and one or two digits \<open>m\<close> (00 and 13 to 99 included) the result has the
  month \<open>m\<close> and the sort key \<open>y * 100 + m\<close>; the text \<^verbatim>\<open>2024-99\<close> gets the key 202499,
  above the 202412 of December 2024.
\<close>

theorem numeric_month_not_validated:
  assumes "length y = 4" and "list_all is_digit y"
    and "sep = CHR ''-'' \<or> sep = CHR ''/''"
    and "length m = 1 \<or> length m = 2" and "list_all is_digit m"
  shows "parseYearMonth (JStr (y @ sep # m)) =
           Inr \<lparr>year = parseInt10 y, month = parseInt10 m,
                sortKey = parseInt10 y * 100 + parseInt10 m\<rparr>"
proof -
  let ?t = "y @ sep # m"
  have low: "toLowerCase ?t = ?t"
    using assms(2,3,5)
    by (auto simp: toLowerCase_def list_all_iff digit_lower sep_lower intro!: map_idI)
  have "\<forall>c \<in> set ?t. \<not> is_space c"
    using assms(2,3,5) by (auto simp: list_all_iff digit_not_space sep_not_space)
  then have my: "monthYearMatch ?t = None"
    by (simp only: monthYearMatch_None no_space_no_month_year not_False_eq_True)
  have fd: "four_digits ?t = Some y"
    using assms(1,2) by (auto simp: four_digits_Some)
  from assms(4) have "dash_at ?t = Some (y, m)"
  proof
    assume "length m = 1"
    then obtain m1 where "m = [m1]" by (cases m) auto
    then show ?thesis using fd assms by (simp add: dash_at_def)
  next
    assume "length m = 2"
    then obtain m1 m2 where "m = [m1, m2]"
      by (cases m; cases "tl m") auto
    then show ?thesis using fd assms by (simp add: dash_at_def)
  qed
  moreover have "?t \<noteq> []" by simp
  ultimately have "leftmost dash_at ?t = Some (y, m)" by (rule leftmost_head)
  then have "dashMatch ?t = Some (y, m)" by (simp add: dashMatch_def)
  with my low show ?thesis
    by (simp add: parseYearMonth_string parse_date_string_def Let_def)
qed

theorem numeric_month_not_validated_witness:
  "length ''2024'' = 4 \<and> list_all is_digit ''2024'' \<and>
   (CHR ''-'' = CHR ''-'' \<or> CHR ''-'' = CHR ''/'') \<and>
   (length ''99'' = 1 \<or> length ''99'' = 2) \<and> list_all is_digit ''99'' \<and>
   parseYearMonth (JStr ''2024-99'') = Inr \<lparr>year = 2024, month = 99, sortKey = 202499\<rparr> \<and>
   parseYearMonth (JStr ''December 2024'') = Inr \<lparr>year = 2024, month = 12, sortKey = 202412\<rparr>"
proof -
  have d: "list_all is_digit ''2024''" "list_all is_digit ''99''" by code_simp+
  have v: "parseInt10 ''2024'' = 2024" "parseInt10 ''99'' = 99" by code_simp+
  have x: "parseYearMonth (JStr ''December 2024'') = Inr \<lparr>year = 2024, month = 12, sortKey = 202412\<rparr>"
    by code_simp
  show ?thesis
    using numeric_month_not_validated[of "''2024''" "CHR ''-''" "''99''"] d v x
    by simp
qed

section \<open>Properties of the loader\<close>

subsection \<open>Defaults\<close>

text \<open>The empty object \<^verbatim>\<open>{}\<close> at index 0 is loaded as \<^const>\<open>bare_project\<close>.\<close>

lemma normalize_bare: "normalize_project (JObj []) 0 = Inr bare_project"
  by (simp add: normalize_project_def parseYearMonth_def js_or_def bare_project_def)

lemma normalize_project_ok:
  assumes "\<not> nullish raw"
    and "\<not> truthy (get_prop raw ''date'') \<or> (\<exists>s. get_prop raw ''date'' = JStr s)"
  shows "\<exists>p. normalize_project raw i = Inr p"
proof -
  from assms(2) have "\<exists>sd. parseYearMonth (get_prop raw ''date'') = Inr sd"
    by (auto simp: parseYearMonth_def)
  with assms(1) show ?thesis by (auto simp: normalize_project_def)
qed

lemma normalize_from_length:
  "normalize_from i raws = Inr ps \<Longrightarrow> length ps = length raws"
  by (induction raws arbitrary: i ps) (auto split: sum.splits)

lemma normalize_from_nth:
  "normalize_from i raws = Inr ps \<Longrightarrow> k < length raws \<Longrightarrow>
     normalize_project (raws ! k) (i + k) = Inr (ps ! k)"
proof (induction raws arbitrary: i ps k)
  case Nil
  then show ?case by simp
next
  case (Cons raw raws)
  from Cons.prems(1) obtain p qs where h: "normalize_project raw i = Inr p"
      "normalize_from (Suc i) raws = Inr qs" "ps = p # qs"
    by (auto split: sum.splits)
  show ?case
  proof (cases k)
    case 0
    with h show ?thesis by simp
  next
    case (Suc n)
    with Cons.prems(2) have "n < length raws" by simp
    with h(2) have "normalize_project (raws ! n) (Suc i + n) = Inr (qs ! n)"
      by (rule Cons.IH)
    with Suc h(3) show ?thesis by simp
  qed
qed

lemma normalize_from_ok:
  assumes "\<forall>raw \<in> set raws. \<not> nullish raw \<and>
      (\<not> truthy (get_prop raw ''date'') \<or> (\<exists>s. get_prop raw ''date'' = JStr s))"
  shows "\<exists>ps. normalize_from i raws = Inr ps"
  using assms
proof (induction raws arbitrary: i)
  case Nil
  then show ?case by simp
next
  case (Cons raw raws)
  then obtain p where "normalize_project raw i = Inr p"
    using normalize_project_ok[of raw i] by auto
  moreover from Cons obtain ps where "normalize_from (Suc i) raws = Inr ps" by fastforce
  ultimately show ?case by simp
qed

text \<open>
  C7: normalization never rejects a project.  The code breaks this for a project whose
  \<^verbatim>\<open>date\<close> is a truthy value that is not a string: \<^verbatim>\<open>parseYearMonth\<close> guards against a
  falsy date only and then calls \<^verbatim>\<open>toLowerCase\<close> on the value, the TypeError leaves the
  \<^verbatim>\<open>map\<close> callback and the whole load ends in the \<^verbatim>\<open>catch\<close> block.  Here the document
  is \<^verbatim>\<open>{"projects": [{"title": "Poster", "date": 2024}]}\<close>.
\<close>

theorem numeric_date_rejects_load:
  "normalize_project (JObj [(''title'', JStr ''Poster''), (''date'', JNum 2024)]) 0 = Inl TypeError \<and>
   loadProjects numeric_date_document = Inl TypeError"
  by (simp add: numeric_date_document_def loadProjects_def normalize_project_def
      parseYearMonth_def)

theorem numeric_date_rejects_load_witness:
  "isl (loadProjects numeric_date_document)"
  using numeric_date_rejects_load by simp

lemma normalize_project_InrD:
  "normalize_project raw i = Inr p \<Longrightarrow>
     \<exists>sd. p = \<lparr>id_field = js_or (get_prop raw ''id'') (JNum (real (i + 1))),
                title = js_or (get_prop raw ''title'') (JStr ''Untitled Project''),
                category = js_or (get_prop raw ''category'') (JStr ''uncategorized''),
                type_field = js_or (get_prop raw ''type'') (JStr ''Other''),
                date = js_or (get_prop raw ''date'') (JStr ''Unknown Date''),
                sortDate = sd,
                tools = js_or (get_prop raw ''tools'') (JArr []),
                skills = js_or (get_prop raw ''skills'') (JArr []),
                description =
                  js_or (get_prop raw ''description'') (JStr ''No description available.''),
                links = js_or (get_prop raw ''links'') (JArr []),
                media = js_or (get_prop raw ''media'') (JArr [])\<rparr>"
  by (auto simp: normalize_project_def split: if_splits sum.splits)

text \<open>
  What does hold: when no array element is null and every \<^verbatim>\<open>date\<close> is missing, falsy or
  a string, every project is kept, the list has the length of the array, and each field
  is the raw field if that is truthy and its default otherwise.
\<close>

theorem normalization_keeps_every_project:
  assumes "\<forall>raw \<in> set raws. \<not> nullish raw \<and>
      (\<not> truthy (get_prop raw ''date'') \<or> (\<exists>s. get_prop raw ''date'' = JStr s))"
  shows "\<exists>ps. normalize_from 0 raws = Inr ps \<and> length ps = length raws \<and>
     (\<forall>k < length raws.
        id_field (ps ! k) = js_or (get_prop (raws ! k) ''id'') (JNum (real (k + 1))) \<and>
        title (ps ! k) = js_or (get_prop (raws ! k) ''title'') (JStr ''Untitled Project'') \<and>
        category (ps ! k) = js_or (get_prop (raws ! k) ''category'') (JStr ''uncategorized'') \<and>
        type_field (ps ! k) = js_or (get_prop (raws ! k) ''type'') (JStr ''Other'') \<and>
        date (ps ! k) = js_or (get_prop (raws ! k) ''date'') (JStr ''Unknown Date'') \<and>
        tools (ps ! k) = js_or (get_prop (raws ! k) ''tools'') (JArr []) \<and>
        skills (ps ! k) = js_or (get_prop (raws ! k) ''skills'') (JArr []) \<and>
        description (ps ! k) =
          js_or (get_prop (raws ! k) ''description'') (JStr ''No description available.'') \<and>
        links (ps ! k) = js_or (get_prop (raws ! k) ''links'') (JArr []) \<and>
        media (ps ! k) = js_or (get_prop (raws ! k) ''media'') (JArr []))"
proof -
  from assms obtain ps where ps: "normalize_from 0 raws = Inr ps"
    using normalize_from_ok by blast
  have len: "length ps = length raws" using ps by (rule normalize_from_length)
  have "\<forall>k < length raws.
        id_field (ps ! k) = js_or (get_prop (raws ! k) ''id'') (JNum (real (k + 1))) \<and>
        title (ps ! k) = js_or (get_prop (raws ! k) ''title'') (JStr ''Untitled Project'') \<and>
        category (ps ! k) = js_or (get_prop (raws ! k) ''category'') (JStr ''uncategorized'') \<and>
        type_field (ps ! k) = js_or (get_prop (raws ! k) ''type'') (JStr ''Other'') \<and>
        date (ps ! k) = js_or (get_prop (raws ! k) ''date'') (JStr ''Unknown Date'') \<and>
        tools (ps ! k) = js_or (get_prop (raws ! k) ''tools'') (JArr []) \<and>
        skills (ps ! k) = js_or (get_prop (raws ! k) ''skills'') (JArr []) \<and>
        description (ps ! k) =
          js_or (get_prop (raws ! k) ''description'') (JStr ''No description available.'') \<and>
        links (ps ! k) = js_or (get_prop (raws ! k) ''links'') (JArr []) \<and>
        media (ps ! k) = js_or (get_prop (raws ! k) ''media'') (JArr [])"
  proof (intro allI impI)
    fix k assume "k < length raws"
    with ps have "normalize_project (raws ! k) (0 + k) = Inr (ps ! k)"
      by (rule normalize_from_nth)
    then show "id_field (ps ! k) = js_or (get_prop (raws ! k) ''id'') (JNum (real (k + 1))) \<and>
        title (ps ! k) = js_or (get_prop (raws ! k) ''title'') (JStr ''Untitled Project'') \<and>
        category (ps ! k) = js_or (get_prop (raws ! k) ''category'') (JStr ''uncategorized'') \<and>
        type_field (ps ! k) = js_or (get_prop (raws ! k) ''type'') (JStr ''Other'') \<and>
        date (ps ! k) = js_or (get_prop (raws ! k) ''date'') (JStr ''Unknown Date'') \<and>
        tools (ps ! k) = js_or (get_prop (raws ! k) ''tools'') (JArr []) \<and>
        skills (ps ! k) = js_or (get_prop (raws ! k) ''skills'') (JArr []) \<and>
        description (ps ! k) =
          js_or (get_prop (raws ! k) ''description'') (JStr ''No description available.'') \<and>
        links (ps ! k) = js_or (get_prop (raws ! k) ''links'') (JArr []) \<and>
        media (ps ! k) = js_or (get_prop (raws ! k) ''media'') (JArr [])"
      by (auto dest!: normalize_project_InrD)
  qed
  with ps len show ?thesis by blast
qed

theorem normalization_keeps_every_project_witness:
  "normalize_from 0 [JObj [], JObj [(''title'', JStr []), (''date'', JStr ''May 2023'')]] =
     Inr [bare_project,
          bare_project\<lparr>id_field := JNum 2, date := JStr ''May 2023'',
                        sortDate := \<lparr>year = 2023, month = 5, sortKey = 202305\<rparr>\<rparr>]"
proof -
  have d: "parseYearMonth (JStr ''May 2023'') = Inr \<lparr>year = 2023, month = 5, sortKey = 202305\<rparr>"
    by code_simp
  have "\<forall>raw \<in> set [JObj [], JObj [(''title'', JStr []), (''date'', JStr ''May 2023'')]].
      \<not> nullish raw \<and>
      (\<not> truthy (get_prop raw ''date'') \<or> (\<exists>s. get_prop raw ''date'' = JStr s))"
    by simp
  from normalization_keeps_every_project[OF this] d show ?thesis
    by (simp add: normalize_project_def parseYearMonth_def js_or_def bare_project_def)
qed

subsection \<open>The sort\<close>

lemma compare_dates_le:
  "compare_dates a b \<le> 0 \<longleftrightarrow>
     year (sortDate a) > year (sortDate b) \<or>
     (year (sortDate a) = year (sortDate b) \<and> month (sortDate a) \<ge> month (sortDate b))"
  by (auto simp: compare_dates_def)

lemma set_insert_sorted: "set (insert_sorted cmp x ys) = insert x (set ys)"
  by (induction ys) auto

lemma length_insert_sorted: "length (insert_sorted cmp x ys) = Suc (length ys)"
  by (induction ys) auto

lemma length_js_sort: "length (js_sort cmp xs) = length xs"
  by (induction xs) (auto simp: js_sort_def length_insert_sorted)

lemma sorted_insert_dates:
  "sorted_wrt (\<lambda>a b. compare_dates a b \<le> 0) ys \<Longrightarrow>
   sorted_wrt (\<lambda>a b. compare_dates a b \<le> 0) (insert_sorted compare_dates x ys)"
proof (induction ys)
  case Nil
  then show ?case by simp
next
  case (Cons y ys)
  show ?case
  proof (cases "compare_dates x y \<le> 0")
    case True
    have "\<forall>z \<in> set ys. compare_dates x z \<le> 0"
    proof
      fix z assume "z \<in> set ys"
      with Cons.prems have "compare_dates y z \<le> 0" by simp
      with True show "compare_dates x z \<le> 0" unfolding compare_dates_le by linarith
    qed
    with True Cons.prems show ?thesis by simp
  next
    case False
    then have "compare_dates y x \<le> 0" unfolding compare_dates_le by linarith
    with False Cons show ?thesis by (auto simp: set_insert_sorted)
  qed
qed

lemma sorted_js_sort_dates:
  "sorted_wrt (\<lambda>a b. compare_dates a b \<le> 0) (js_sort compare_dates xs)"
proof (induction xs)
  case Nil
  show ?case by (simp add: js_sort_def)
next
  case (Cons x xs)
  then show ?case using sorted_insert_dates[of "js_sort compare_dates xs" x]
    by (simp add: js_sort_def)
qed

lemma loadProjects_InrD:
  "loadProjects r = Inr ps \<Longrightarrow> \<exists>qs. ps = js_sort compare_dates qs"
  by (auto simp: loadProjects_def split: fetch_result.splits if_splits option.splits
      jsval.splits sum.splits)

lemma load_undated_then_1999: "loadProjects undated_then_1999 = Inr undated_then_1999_loaded"
  by code_simp

text \<open>
  C5, as stated: after a successful load the list is in descending order of the sort
  key.  The comparator reads \<^verbatim>\<open>sortDate.year\<close> and \<^verbatim>\<open>sortDate.month\<close>, never
  \<^verbatim>\<open>sortKey\<close>, and an unknown date has year 2000 and month 1 with the key 0: the project
  without a date is placed before the project dated 1999, whose key is 199900.
\<close>

theorem sorted_by_sortKey_counterexample:
  "loadProjects undated_then_1999 = Inr undated_then_1999_loaded \<and>
   (0::nat) < 1 \<and> 1 < length undated_then_1999_loaded \<and>
   sortKey (sortDate (undated_then_1999_loaded ! 0)) = 0 \<and>
   sortKey (sortDate (undated_then_1999_loaded ! 1)) = 199900 \<and>
   \<not> sortKey (sortDate (undated_then_1999_loaded ! 0))
       \<ge> sortKey (sortDate (undated_then_1999_loaded ! 1))"
  using load_undated_then_1999
  by (simp add: undated_then_1999_loaded_def bare_project_def)

text \<open>
  C5, amended: after a successful load the list is in descending order of the parsed
  year and, within a year, of the parsed month: for positions \<open>i < j\<close> the project at
  \<open>i\<close> has the later year, or the same year and a month that is not earlier.
\<close>

theorem loadProjects_sorted_by_year_month:
  assumes "loadProjects r = Inr ps" and "i < j" and "j < length ps"
  shows "year (sortDate (ps ! i)) > year (sortDate (ps ! j)) \<or>
         (year (sortDate (ps ! i)) = year (sortDate (ps ! j)) \<and>
          month (sortDate (ps ! i)) \<ge> month (sortDate (ps ! j)))"
proof -
  from assms(1) obtain qs where "ps = js_sort compare_dates qs"
    using loadProjects_InrD by blast
  then have "sorted_wrt (\<lambda>a b. compare_dates a b \<le> 0) ps"
    by (simp add: sorted_js_sort_dates)
  with assms(2,3) have "compare_dates (ps ! i) (ps ! j) \<le> 0"
    by (simp add: sorted_wrt_iff_nth_less)
  then show ?thesis by (simp only: compare_dates_le)
qed

theorem loadProjects_sorted_by_year_month_witness:
  "loadProjects undated_then_1999 = Inr undated_then_1999_loaded \<and>
   (0::nat) < 1 \<and> 1 < length undated_then_1999_loaded \<and>
   year (sortDate (undated_then_1999_loaded ! 0)) = 2000 \<and>
   year (sortDate (undated_then_1999_loaded ! 1)) = 1999 \<and>
   (year (sortDate (undated_then_1999_loaded ! 0)) > year (sortDate (undated_then_1999_loaded ! 1)) \<or>
    year (sortDate (undated_then_1999_loaded ! 0)) = year (sortDate (undated_then_1999_loaded ! 1)) \<and>
    month (sortDate (undated_then_1999_loaded ! 0)) \<ge> month (sortDate (undated_then_1999_loaded ! 1)))"
proof -
  have l: "1 < length undated_then_1999_loaded" by (simp add: undated_then_1999_loaded_def)
  have y: "year (sortDate (undated_then_1999_loaded ! 0)) = 2000"
    "year (sortDate (undated_then_1999_loaded ! 1)) = 1999"
    by (simp_all add: undated_then_1999_loaded_def bare_project_def)
  show ?thesis
    using loadProjects_sorted_by_year_month[of undated_then_1999 undated_then_1999_loaded 0 1]
      load_undated_then_1999 l y
    by simp
qed

section \<open>Properties of the filter\<close>

lemma filterProjects_filter:
  "filteredProjects (filterProjects st) =
     filter (\<lambda>p. (currentCategory st = ''all'' \<or> category p = JStr (currentCategory st)) \<and>
                 (currentType st = ''all'' \<or> type_field p = JStr (currentType st)))
       (projects st)"
  by (simp add: filterProjects_def Let_def)

text \<open>
  C4: the filtered list is a function of the full list, the category and the type.  A
  project is in it exactly when it is in the full list, the category is \<^verbatim>\<open>all\<close> or equal
  to the project's, and the type is \<^verbatim>\<open>all\<close> or equal to the project's; it keeps the
  order of the full list; with both filters \<^verbatim>\<open>all\<close> it is the full list; and filtering
  again with the same state changes nothing.
\<close>

theorem filterProjects_correct:
  "(\<forall>p. p \<in> set (filteredProjects (filterProjects st)) \<longleftrightarrow>
        p \<in> set (projects st) \<and>
        (currentCategory st = ''all'' \<or> category p = JStr (currentCategory st)) \<and>
        (currentType st = ''all'' \<or> type_field p = JStr (currentType st))) \<and>
   filteredProjects (filterProjects st) =
     filter (\<lambda>p. (currentCategory st = ''all'' \<or> category p = JStr (currentCategory st)) \<and>
                 (currentType st = ''all'' \<or> type_field p = JStr (currentType st)))
       (projects st) \<and>
   subseq (filteredProjects (filterProjects st)) (projects st) \<and>
   (currentCategory st = ''all'' \<and> currentType st = ''all'' \<longrightarrow>
      filteredProjects (filterProjects st) = projects st) \<and>
   filterProjects (filterProjects st) = filterProjects st \<and>
   (projects st' = projects st \<and> currentCategory st' = currentCategory st \<and>
    currentType st' = currentType st \<longrightarrow>
      filteredProjects (filterProjects st') = filteredProjects (filterProjects st))"
proof (intro conjI)
  show "\<forall>p. p \<in> set (filteredProjects (filterProjects st)) \<longleftrightarrow>
        p \<in> set (projects st) \<and>
        (currentCategory st = ''all'' \<or> category p = JStr (currentCategory st)) \<and>
        (currentType st = ''all'' \<or> type_field p = JStr (currentType st))"
    by (simp add: filterProjects_filter)
  show "filteredProjects (filterProjects st) =
     filter (\<lambda>p. (currentCategory st = ''all'' \<or> category p = JStr (currentCategory st)) \<and>
                 (currentType st = ''all'' \<or> type_field p = JStr (currentType st)))
       (projects st)"
    by (rule filterProjects_filter)
  show "subseq (filteredProjects (filterProjects st)) (projects st)"
    by (simp add: filterProjects_filter)
  show "currentCategory st = ''all'' \<and> currentType st = ''all'' \<longrightarrow>
      filteredProjects (filterProjects st) = projects st"
    by (simp add: filterProjects_filter)
  show "filterProjects (filterProjects st) = filterProjects st"
    by (simp add: filterProjects_def Let_def)
  show "projects st' = projects st \<and> currentCategory st' = currentCategory st \<and>
    currentType st' = currentType st \<longrightarrow>
      filteredProjects (filterProjects st') = filteredProjects (filterProjects st)"
    by (simp add: filterProjects_filter)
qed

theorem filterProjects_correct_witness:
  "filteredProjects (filterProjects two_graphic_one_video) =
     [bare_project\<lparr>category := JStr ''graphic''\<rparr>,
      bare_project\<lparr>category := JStr ''graphic'', type_field := JStr ''Poster''\<rparr>] \<and>
   (currentCategory (two_graphic_one_video\<lparr>currentCategory := ''all''\<rparr>) = ''all'' \<and>
    currentType (two_graphic_one_video\<lparr>currentCategory := ''all''\<rparr>) = ''all'') \<and>
   filteredProjects (filterProjects (two_graphic_one_video\<lparr>currentCategory := ''all''\<rparr>)) =
     projects two_graphic_one_video"
  using filterProjects_correct[of two_graphic_one_video two_graphic_one_video]
    filterProjects_correct[of "two_graphic_one_video\<lparr>currentCategory := ''all''\<rparr>"
       two_graphic_one_video]
  by (simp add: two_graphic_one_video_def bare_project_def)

section \<open>Properties of the modal\<close>

text \<open>On a list the handler \<^verbatim>\<open>nextMedia\<close> compares with the length of the list, whatever
  the conversion of other values does.\<close>

lemma nextMedia_array:
  assumes "currentProject st = Some q" and "media q = JArr xs"
  shows "nextMedia conv st =
           (if currentMediaIndex st < int (length xs) - 1
            then st\<lparr>currentMediaIndex := currentMediaIndex st + 1\<rparr> else st)"
proof -
  have "real_of_int (currentMediaIndex st) < real (length xs) - 1 \<longleftrightarrow>
        currentMediaIndex st < int (length xs) - 1"
    by linarith
  with assms show ?thesis by (simp add: nextMedia_def media_length_def)
qed

text \<open>On an object the handler reads the object's own \<^verbatim>\<open>length\<close>: with
  \<^verbatim>\<open>{"length": 5}\<close> the index moves from 0 to 1.\<close>

lemma nextMedia_object_length:
  "currentMediaIndex (nextMedia conv (openProjectModal initial_modal length_five_project)) = 1"
  by (simp add: nextMedia_def media_length_def openProjectModal_def initial_modal_def
      length_five_project_def)

lemma nextMedia_currentProject: "currentProject (nextMedia conv st) = currentProject st"
  by (simp add: nextMedia_def split: option.splits sum.splits)

lemma index_ok_initial: "index_ok initial_modal"
  by (simp add: index_ok_def initial_modal_def)

lemma index_ok_open: "index_ok (openProjectModal st p)"
  by (simp add: index_ok_def openProjectModal_def split: jsval.splits)

lemma index_ok_close: "index_ok (closeModal st)"
  by (simp add: index_ok_def closeModal_def)

lemma index_ok_next:
  assumes "index_ok st"
  shows "index_ok (nextMedia conv st)"
proof (cases "currentProject st")
  case None
  then show ?thesis using assms by (simp add: nextMedia_def)
next
  case (Some q)
  show ?thesis
  proof (cases "\<exists>xs. media q = JArr xs")
    case True
    then obtain xs where m: "media q = JArr xs" by blast
    from assms Some m have "0 \<le> currentMediaIndex st \<and>
        currentMediaIndex st \<le> max 0 (int (length xs) - 1)"
      by (simp add: index_ok_def)
    then show ?thesis
      using Some m by (simp add: nextMedia_array[OF Some m] index_ok_def)
  next
    case False
    have "currentProject (nextMedia conv st) = Some q"
      using Some by (simp add: nextMedia_currentProject)
    with False show ?thesis by (auto simp: index_ok_def split: jsval.splits)
  qed
qed

lemma index_ok_prev: "index_ok st \<Longrightarrow> index_ok (prevMedia st)"
  by (auto simp: index_ok_def prevMedia_def split: option.splits jsval.splits)

lemma reachable_index_ok: "reachable conv st \<Longrightarrow> index_ok st"
  by (induction rule: reachable.induct)
     (simp_all add: index_ok_initial index_ok_open index_ok_close index_ok_next index_ok_prev)

text \<open>
  C6, as stated: whenever a project is open the media index lies in
  \<open>[0, media.length - 1]\<close>.  Opening a project without media sets the index to 0 while
  that range is empty; the script expects the case and shows "No media available".
\<close>

theorem media_index_range_counterexample:
  "currentProject (openProjectModal initial_modal bare_project) = Some bare_project \<and>
   media bare_project = JArr [] \<and>
   currentMediaIndex (openProjectModal initial_modal bare_project) = 0 \<and>
   \<not> (0 \<le> currentMediaIndex (openProjectModal initial_modal bare_project) \<and>
      currentMediaIndex (openProjectModal initial_modal bare_project)
        \<le> int (length ([] :: jsval list)) - 1)"
  by (simp add: openProjectModal_def initial_modal_def bare_project_def)

text \<open>
  C6, amended: while a project is open whose media is a list, the media index is 0 when
  the list is empty and lies in \<open>[0, media.length - 1]\<close> otherwise; the bound holds at
  the start and is kept by opening the modal, \<^verbatim>\<open>nextMedia\<close>, \<^verbatim>\<open>prevMedia\<close> and closing
  the modal.  \<^const>\<open>index_ok\<close> is that bound; on a list \<^verbatim>\<open>nextMedia\<close> moves the index
  forward exactly while it is below \<open>media.length - 1\<close>.
\<close>

theorem media_index_invariant:
  "index_ok initial_modal \<and>
   (index_ok st \<longrightarrow>
      index_ok (openProjectModal st p) \<and> index_ok (nextMedia conv st) \<and>
      index_ok (prevMedia st) \<and> index_ok (closeModal st)) \<and>
   (currentProject st = Some q \<and> media q = JArr xs \<longrightarrow>
      (index_ok st \<longleftrightarrow>
         0 \<le> currentMediaIndex st \<and> currentMediaIndex st \<le> max 0 (int (length xs) - 1)) \<and>
      nextMedia conv st =
        (if currentMediaIndex st < int (length xs) - 1
         then st\<lparr>currentMediaIndex := currentMediaIndex st + 1\<rparr> else st)) \<and>
   (reachable conv st \<and> currentProject st = Some q \<and> media q = JArr xs \<longrightarrow>
      (xs = [] \<longrightarrow> currentMediaIndex st = 0) \<and>
      (xs \<noteq> [] \<longrightarrow> 0 \<le> currentMediaIndex st \<and>
                       currentMediaIndex st \<le> int (length xs) - 1))"
proof (intro conjI impI)
  show "index_ok initial_modal" by (rule index_ok_initial)
next
  assume "index_ok st"
  then show "index_ok (openProjectModal st p)" "index_ok (nextMedia conv st)"
    "index_ok (prevMedia st)" "index_ok (closeModal st)"
    by (simp_all add: index_ok_open index_ok_next index_ok_prev index_ok_close)
next
  assume a: "currentProject st = Some q \<and> media q = JArr xs"
  then show "index_ok st \<longleftrightarrow>
         0 \<le> currentMediaIndex st \<and> currentMediaIndex st \<le> max 0 (int (length xs) - 1)"
    by (simp add: index_ok_def)
  from a show "nextMedia conv st =
        (if currentMediaIndex st < int (length xs) - 1
         then st\<lparr>currentMediaIndex := currentMediaIndex st + 1\<rparr> else st)"
    by (simp add: nextMedia_array)
next
  assume a: "reachable conv st \<and> currentProject st = Some q \<and> media q = JArr xs"
  then have "reachable conv st" by simp
  then have ok: "index_ok st" by (rule reachable_index_ok)
  { assume "xs = []"
    with a ok show "currentMediaIndex st = 0"
      by (simp add: index_ok_def) }
  { assume "xs \<noteq> []"
    then have "0 < length xs" by simp
    with a ok show "0 \<le> currentMediaIndex st" "currentMediaIndex st \<le> int (length xs) - 1"
      by (auto simp: index_ok_def) }
qed

theorem media_index_invariant_witness:
  "index_ok (openProjectModal initial_modal two_media_project) \<and>
   reachable conv_nan (nextMedia conv_nan (openProjectModal initial_modal two_media_project)) \<and>
   currentProject (nextMedia conv_nan (openProjectModal initial_modal two_media_project)) =
     Some two_media_project \<and>
   media two_media_project =
     JArr [JObj [(''type'', JStr ''image'')], JObj [(''type'', JStr ''video'')]] \<and>
   currentMediaIndex (nextMedia conv_nan (openProjectModal initial_modal two_media_project)) = 1 \<and>
   index_ok (nextMedia conv_nan (nextMedia conv_nan
      (openProjectModal initial_modal two_media_project))) \<and>
   currentMediaIndex (nextMedia conv_nan (nextMedia conv_nan
      (openProjectModal initial_modal two_media_project))) = 1"
proof -
  let ?o = "openProjectModal initial_modal two_media_project"
  let ?xs = "[JObj [(''type'', JStr ''image'')], JObj [(''type'', JStr ''video'')]]"
  have r: "reachable conv_nan (nextMedia conv_nan ?o)"
    by (intro reachable.next_step reachable.opened reachable.start)
  have m: "media two_media_project = JArr ?xs"
    by (simp add: two_media_project_def)
  have po: "currentProject ?o = Some two_media_project" "currentMediaIndex ?o = 0"
    by (simp_all add: openProjectModal_def)
  have o: "index_ok ?o"
    using media_index_invariant[of initial_modal two_media_project conv_nan] by simp
  have n1: "nextMedia conv_nan ?o = ?o\<lparr>currentMediaIndex := 1\<rparr>"
    using media_index_invariant[of ?o two_media_project conv_nan two_media_project ?xs] po m
    by simp
  have n2: "nextMedia conv_nan (?o\<lparr>currentMediaIndex := 1\<rparr>) = ?o\<lparr>currentMediaIndex := 1\<rparr>"
    using media_index_invariant[of "?o\<lparr>currentMediaIndex := 1\<rparr>" two_media_project conv_nan
        two_media_project ?xs] po m
    by simp
  have i1: "index_ok (nextMedia conv_nan ?o)"
    using media_index_invariant[of ?o two_media_project conv_nan] o by simp
  show ?thesis using r m o n1 n2 i1 po by simp
qed

section \<open>Properties of the lazy loader\<close>

lemma length_load_selected: "length (load_selected sel load vp es) = length es"
  by (simp add: load_selected_def)

lemma nth_load_selected:
  "i < length es \<Longrightarrow>
   load_selected sel load vp es ! i =
     (if sel (node_of (es ! i)) \<and> isInViewport vp (rect_of (es ! i))
      then (es ! i)\<lparr>node_of := load (node_of (es ! i))\<rparr> else es ! i)"
  by (simp add: load_selected_def)

lemma length_lazyLoadHandler: "length (lazyLoadHandler vp es) = length es"
  by (simp add: lazyLoadHandler_def length_load_selected)

lemma length_relayout: "length (relayout f es) = length es"
  by (simp add: relayout_def)

lemma nth_relayout: "i < length es \<Longrightarrow> relayout f es ! i = (es ! i)\<lparr>rect_of := f i\<rparr>"
  by (simp add: relayout_def nth_enumerate_eq)

lemma handler_image:
  assumes "i < length es" "isInViewport vp (rect_of (es ! i))" "s \<noteq> []"
    "node_of (es ! i) = Img True src (Some s)"
  shows "node_of (lazyLoadHandler vp es ! i) = Img False s None"
  using assms by (simp add: lazyLoadHandler_def nth_load_selected length_load_selected)

lemma handler_placeholder:
  assumes "i < length es" "isInViewport vp (rect_of (es ! i))" "s \<noteq> []"
    "node_of (es ! i) = Placeholder (Some s) tid"
  shows "node_of (lazyLoadHandler vp es ! i) = Iframe s"
  using assms by (simp add: lazyLoadHandler_def nth_load_selected length_load_selected)

lemma init_image:
  assumes "i < length (elements pg)" "isInViewport vp (rect_of (elements pg ! i))" "s \<noteq> []"
    "node_of (elements pg ! i) = Img True src (Some s)"
  shows "node_of (elements (initLazyLoading vp pg) ! i) = Img False s None"
  using assms by (simp add: initLazyLoading_def nth_load_selected length_load_selected Let_def)

lemma init_placeholder:
  assumes "i < length (elements pg)" "isInViewport vp (rect_of (elements pg ! i))" "s \<noteq> []"
    "node_of (elements pg ! i) = Placeholder (Some s) tid"
  shows "node_of (elements (initLazyLoading vp pg) ! i) = Iframe s"
  using assms by (simp add: initLazyLoading_def nth_load_selected length_load_selected Let_def)

lemma init_registers:
  assumes "e \<in> set (elements pg)" "is_lazy_image (node_of e) \<or> is_placeholder (node_of e)"
  shows "scroll_listener (initLazyLoading vp pg)"
proof -
  from assms have "filter (\<lambda>e. is_lazy_image (node_of e)) (elements pg) \<noteq> [] \<or>
     filter (\<lambda>e. is_placeholder (node_of e)) (elements pg) \<noteq> []"
    by (auto simp: filter_empty_conv)
  then show ?thesis by (auto simp: initLazyLoading_def Let_def)
qed

text \<open>
  C8, as stated: every lazy element whose bounding box intersects the viewport is
  activated.  \<^verbatim>\<open>isInViewport\<close> asks for the whole box to be inside the viewport, so a lazy
  image that starts ten pixels above the viewport intersects it and is left as it is,
  by the handler and by the pass at render time.
\<close>

theorem intersecting_not_activated_counterexample:
  "spec_intersects_viewport desktop_viewport (rect_of cut_off_image) \<and>
   is_lazy_image_with_src (node_of cut_off_image) \<and>
   lazyLoadHandler desktop_viewport [cut_off_image] = [cut_off_image] \<and>
   elements (initLazyLoading desktop_viewport
               \<lparr>elements = [cut_off_image], scroll_listener = False\<rparr>) = [cut_off_image] \<and>
   \<not> activated (node_of cut_off_image)"
  by (simp add: spec_intersects_viewport_def desktop_viewport_def cut_off_image_def
      lazyLoadHandler_def initLazyLoading_def load_selected_def isInViewport_def num_or_def)

text \<open>
  C8, amended: a lazy element with a non-empty \<^verbatim>\<open>data-src\<close> whose bounding box lies
  entirely inside the viewport is activated (an image gets its \<^verbatim>\<open>src\<close> from
  \<^verbatim>\<open>data-src\<close>, a placeholder is replaced by an \<^verbatim>\<open>iframe\<close> with that source): by the pass
  at render time, by the handler, and by every scroll event once the handler is
  registered, which the pass at render time does when the page has a lazy element.
\<close>

theorem lazy_inside_viewport_activated:
  assumes "i < length (elements pg)" and "s \<noteq> []"
    and "node_of (elements pg ! i) = Img True src (Some s) \<and> n' = Img False s None \<or>
         node_of (elements pg ! i) = Placeholder (Some s) tid \<and> n' = Iframe s"
  shows "(isInViewport vp (rect_of (elements pg ! i)) \<longrightarrow>
            node_of (elements (initLazyLoading vp pg) ! i) = n') \<and>
         (isInViewport vp (rect_of (elements pg ! i)) \<longrightarrow>
            node_of (lazyLoadHandler vp (elements pg) ! i) = n') \<and>
         (scroll_listener pg \<and> isInViewport vp (f i) \<longrightarrow>
            node_of (elements (on_scroll vp f pg) ! i) = n') \<and>
         scroll_listener (initLazyLoading vp pg)"
proof (intro conjI impI)
  assume v: "isInViewport vp (rect_of (elements pg ! i))"
  from assms(3) show "node_of (elements (initLazyLoading vp pg) ! i) = n'"
    using init_image[OF assms(1) v assms(2)] init_placeholder[OF assms(1) v assms(2)] by auto
  from assms(3) show "node_of (lazyLoadHandler vp (elements pg) ! i) = n'"
    using handler_image[OF assms(1) v assms(2)] handler_placeholder[OF assms(1) v assms(2)]
    by auto
next
  assume a: "scroll_listener pg \<and> isInViewport vp (f i)"
  let ?es = "relayout f (elements pg)"
  have l: "i < length ?es" using assms(1) by (simp add: length_relayout)
  have r: "isInViewport vp (rect_of (?es ! i))" using a assms(1) by (simp add: nth_relayout)
  have n: "node_of (?es ! i) = node_of (elements pg ! i)"
    using assms(1) by (simp add: nth_relayout)
  from assms(3) have "node_of (lazyLoadHandler vp ?es ! i) = n'"
    using handler_image[OF l r assms(2)] handler_placeholder[OF l r assms(2)] n by auto
  with a show "node_of (elements (on_scroll vp f pg) ! i) = n'"
    by (simp add: on_scroll_def)
next
  have "elements pg ! i \<in> set (elements pg)" using assms(1) by simp
  moreover have "is_lazy_image (node_of (elements pg ! i)) \<or>
      is_placeholder (node_of (elements pg ! i))"
    using assms(3) by auto
  ultimately show "scroll_listener (initLazyLoading vp pg)" by (rule init_registers)
qed

theorem lazy_inside_viewport_activated_witness:
  "(0::nat) < length (elements \<lparr>elements = [visible_placeholder, cut_off_image], scroll_listener = True\<rparr>) \<and>
   isInViewport desktop_viewport (rect_of visible_placeholder) \<and>
   node_of (elements (initLazyLoading desktop_viewport
        \<lparr>elements = [visible_placeholder, cut_off_image], scroll_listener = True\<rparr>) ! 0)
     = Iframe ''https://drive.google.com/file/d/x/preview'' \<and>
   node_of (lazyLoadHandler desktop_viewport [visible_placeholder, cut_off_image] ! 0)
     = Iframe ''https://drive.google.com/file/d/x/preview'' \<and>
   isInViewport desktop_viewport (rect_of visible_placeholder) \<and>
   node_of (elements (on_scroll desktop_viewport (\<lambda>i. rect_of visible_placeholder)
        \<lparr>elements = [visible_placeholder, cut_off_image], scroll_listener = True\<rparr>) ! 0)
     = Iframe ''https://drive.google.com/file/d/x/preview''"
proof -
  have v: "isInViewport desktop_viewport (rect_of visible_placeholder)"
    by (simp add: isInViewport_def desktop_viewport_def visible_placeholder_def num_or_def)
  have n: "node_of visible_placeholder =
      Placeholder (Some ''https://drive.google.com/file/d/x/preview'') ''thumb-1-0''"
    by (simp add: visible_placeholder_def)
  show ?thesis
    using lazy_inside_viewport_activated[of 0
        "\<lparr>elements = [visible_placeholder, cut_off_image], scroll_listener = True\<rparr>"
        "''https://drive.google.com/file/d/x/preview''" "[]"
        "Iframe ''https://drive.google.com/file/d/x/preview''" "''thumb-1-0''"
        desktop_viewport "\<lambda>i. rect_of visible_placeholder"] v n
    by simp
qed

lemma loadImage_activated: "activated n \<Longrightarrow> loadImage n = n"
  by (cases n rule: loadImage.cases) auto

lemma loadIframe_activated: "activated n \<Longrightarrow> loadIframe n = n"
  by (cases n rule: loadIframe.cases) auto

lemma load_selected_keeps:
  assumes "i < length es" "activated (node_of (es ! i))" "\<And>n. activated n \<Longrightarrow> load n = n"
  shows "node_of (load_selected sel load vp es ! i) = node_of (es ! i)"
  using assms by (simp add: nth_load_selected)

lemma handler_keeps:
  assumes "i < length es" "activated (node_of (es ! i))"
  shows "node_of (lazyLoadHandler vp es ! i) = node_of (es ! i)"
proof -
  let ?es = "load_selected is_lazy_image_with_src loadImage vp es"
  have a: "node_of (?es ! i) = node_of (es ! i)"
    using assms loadImage_activated by (rule load_selected_keeps)
  have "node_of (load_selected is_placeholder_with_src loadIframe vp ?es ! i) = node_of (?es ! i)"
    using assms a loadIframe_activated
    by (intro load_selected_keeps) (simp_all add: length_load_selected)
  with a show ?thesis by (simp add: lazyLoadHandler_def)
qed

lemma init_keeps:
  assumes "i < length (elements pg)" "activated (node_of (elements pg ! i))"
  shows "node_of (elements (initLazyLoading vp pg) ! i) = node_of (elements pg ! i)"
proof -
  let ?es = "load_selected is_lazy_image loadImage vp (elements pg)"
  have a: "node_of (?es ! i) = node_of (elements pg ! i)"
    using assms loadImage_activated by (rule load_selected_keeps)
  have "node_of (load_selected is_placeholder loadIframe vp ?es ! i) = node_of (?es ! i)"
    using assms a loadIframe_activated
    by (intro load_selected_keeps) (simp_all add: length_load_selected)
  with a show ?thesis by (simp add: initLazyLoading_def Let_def)
qed

lemma apply_event_length: "length (elements (apply_event ev pg)) = length (elements pg)"
  by (cases ev)
     (simp_all add: on_scroll_def initLazyLoading_def Let_def length_lazyLoadHandler
        length_relayout length_load_selected)

lemma apply_event_keeps:
  assumes "i < length (elements pg)" "activated (node_of (elements pg ! i))"
  shows "node_of (elements (apply_event ev pg) ! i) = node_of (elements pg ! i)"
proof (cases ev)
  case (Scroll vp f)
  let ?es = "relayout f (elements pg)"
  have l: "i < length ?es" using assms(1) by (simp add: length_relayout)
  have n: "node_of (?es ! i) = node_of (elements pg ! i)"
    using assms(1) by (simp add: nth_relayout)
  then have "activated (node_of (?es ! i))" using assms(2) by simp
  with l have "node_of (lazyLoadHandler vp ?es ! i) = node_of (?es ! i)"
    by (rule handler_keeps)
  with n Scroll show ?thesis by (simp add: on_scroll_def)
next
  case (Recheck vp)
  with assms show ?thesis by (simp add: init_keeps)
qed

text \<open>
  C9: activation is one-way.  Whatever scroll events and viewport checks follow, with
  whatever layout, an activated element stays the node it is: its \<^verbatim>\<open>data-src\<close> does not
  come back and an \<^verbatim>\<open>iframe\<close> does not turn into a placeholder again.
\<close>

theorem activation_one_way:
  assumes "i < length (elements pg)" and "activated (node_of (elements pg ! i))"
  shows "i < length (elements (run_events evs pg)) \<and>
         node_of (elements (run_events evs pg) ! i) = node_of (elements pg ! i) \<and>
         activated (node_of (elements (run_events evs pg) ! i))"
  using assms
proof (induction evs arbitrary: pg)
  case Nil
  then show ?case by (simp add: run_events_def)
next
  case (Cons ev evs)
  let ?pg = "apply_event ev pg"
  have l: "i < length (elements ?pg)" using Cons.prems(1) by (simp add: apply_event_length)
  have n: "node_of (elements ?pg ! i) = node_of (elements pg ! i)"
    using Cons.prems by (rule apply_event_keeps)
  then have a: "activated (node_of (elements ?pg ! i))" using Cons.prems(2) by simp
  from Cons.IH[OF l a] n Cons.prems(2) show ?case by (simp add: run_events_def)
qed

theorem activation_one_way_witness:
  "(0::nat) < length (elements \<lparr>elements = [loaded_image, visible_placeholder], scroll_listener = True\<rparr>) \<and>
   activated (node_of (elements \<lparr>elements = [loaded_image, visible_placeholder], scroll_listener = True\<rparr> ! 0)) \<and>
   node_of (elements (run_events [Scroll desktop_viewport far_below, Recheck desktop_viewport]
      \<lparr>elements = [loaded_image, visible_placeholder], scroll_listener = True\<rparr>) ! 0)
     = Img False ''a.png'' None"
  using activation_one_way[of 0 "\<lparr>elements = [loaded_image, visible_placeholder], scroll_listener = True\<rparr>"
      "[Scroll desktop_viewport far_below, Recheck desktop_viewport]"]
  by (simp add: loaded_image_def)

end
